theory Spec2Isabelle
  imports Complex_Main
begin

section \<open>Cells, sheets and JavaScript values\<close>

text \<open>
  The tracking store is a sheet of a Google spreadsheet. A cell read by \<open>getValues\<close> is a
  string, a number, a date or a boolean; a blank cell reads as the empty string. Numbers are
  modelled as integers (the program writes only \<open>0\<close> and \<open>n + 1\<close>); the doubles of the
  program agree with them below \<open>2^53\<close>, where \<open>n + 1\<close> is still exact. A date is
  modelled by its time value in milliseconds. \<open>undefined\<close>, the value of an array read past the end, is
  \<open>None\<close> of \<open>jsval\<close>.
\<close>

datatype cell = Str string | Num int | Date int | Bool bool

type_synonym jsval = "cell option"

type_synonym row = "cell list"

text \<open>
  A sheet is represented by the rows of its data range, each row by its cells from the first
  column on; the cells to the right of a row's end are blank.
\<close>

type_synonym sheet = "row list"

datatype jsnum = Fin int | NaN

text \<open>
  Services of the JavaScript runtime that the program calls and does not define: the text of a
  date (\<open>Date.prototype.toString\<close>), the number a string denotes (\<open>Number(s)\<close>), the
  time value a string denotes (\<open>new Date(s)\<close>, \<open>None\<close> for an invalid date) and the
  calendar step \<open>d.setDate(d.getDate() - 7)\<close> in the script's time zone.
\<close>

record host =
  dateString :: "int \<Rightarrow> string"
  stringToNumber :: "string \<Rightarrow> jsnum"
  parseDate :: "string \<Rightarrow> int option"
  weekBefore :: "int \<Rightarrow> int"

text \<open>\<open>row[j]\<close>: \<open>undefined\<close> past the end of the array.\<close>

definition cellAt :: "row \<Rightarrow> nat \<Rightarrow> jsval" where
  "cellAt r j = (if j < length r then Some (r ! j) else None)"

text \<open>Truthiness of a value, as \<open>||\<close>, \<open>!\<close> and \<open>&&\<close> test it.\<close>

fun truthy :: "jsval \<Rightarrow> bool" where
  "truthy None = False"
| "truthy (Some (Str s)) = (s \<noteq> [])"
| "truthy (Some (Num n)) = (n \<noteq> 0)"
| "truthy (Some (Date d)) = True"
| "truthy (Some (Bool b)) = b"

text \<open>\<open>a || b\<close> with a cell value as the default \<open>b\<close>.\<close>

definition jsOr :: "jsval \<Rightarrow> cell \<Rightarrow> cell" where
  "jsOr a b = (case a of None \<Rightarrow> b | Some v \<Rightarrow> if truthy (Some v) then v else b)"

text \<open>Decimal digits of a number, as \<open>String(n)\<close> writes an integer.\<close>

definition digit :: "nat \<Rightarrow> char" where
  "digit d = ''0123456789'' ! (d mod 10)"

fun showNat :: "nat \<Rightarrow> string" where
  "showNat n = (if n < 10 then [digit n] else showNat (n div 10) @ [digit (n mod 10)])"

declare showNat.simps [simp del]

definition showInt :: "int \<Rightarrow> string" where
  "showInt n = (if n < 0 then ''-'' @ showNat (nat (- n)) else showNat (nat n))"

text \<open>\<open>String(v)\<close>, as a template literal and string concatenation apply it.\<close>

fun jsToString :: "host \<Rightarrow> cell \<Rightarrow> string" where
  "jsToString h (Str s) = s"
| "jsToString h (Num n) = showInt n"
| "jsToString h (Date d) = dateString h d"
| "jsToString h (Bool b) = (if b then ''true'' else ''false'')"

text \<open>
  \<open>a + b\<close>: a string or a date operand makes it a concatenation (the primitive of a date
  is its text), numbers and booleans are added.
\<close>

fun isStringy :: "cell \<Rightarrow> bool" where
  "isStringy (Str s) = True"
| "isStringy (Date d) = True"
| "isStringy (Num n) = False"
| "isStringy (Bool b) = False"

fun toInt :: "cell \<Rightarrow> int" where
  "toInt (Num n) = n"
| "toInt (Bool b) = (if b then 1 else 0)"
| "toInt (Str s) = 0"
| "toInt (Date d) = d"

definition jsPlus :: "host \<Rightarrow> cell \<Rightarrow> cell \<Rightarrow> cell" where
  "jsPlus h a b =
     (if isStringy a \<or> isStringy b then Str (jsToString h a @ jsToString h b)
      else Num (toInt a + toInt b))"

subsection \<open>The sheet service\<close>

definition width :: "sheet \<Rightarrow> nat" where
  "width sh = fold max (map length sh) 0"

definition padRow :: "nat \<Rightarrow> row \<Rightarrow> row" where
  "padRow w r = r @ replicate (w - length r) (Str [])"

text \<open>
  \<open>sheet.getDataRange().getValues()\<close>: a rectangle of at least one row and one column,
  blank cells as empty strings.
\<close>

definition getValues :: "sheet \<Rightarrow> row list" where
  "getValues sh = (if sh = [] then [[Str []]] else map (padRow (max 1 (width sh))) sh)"

text \<open>
  \<open>sheet.getRange(r, c).setValue(v)\<close>, rows and columns counted from 1. A cell outside the
  data range is blank and the write extends the range. There is no row or column 0: the
  service raises, which the caller's \<open>catch\<close> logs, and the sheet stays as it is.
\<close>

definition setValue :: "nat \<Rightarrow> nat \<Rightarrow> cell \<Rightarrow> sheet \<Rightarrow> sheet" where
  "setValue r c v sh =
     (if r = 0 \<or> c = 0 then sh
      else (let sh1 = sh @ replicate (r - length sh) [];
                old = padRow c (sh1 ! (r - 1))
            in sh1[r - 1 := old[c - 1 := v]]))"

text \<open>\<open>sheet.appendRow(cells)\<close>: a new row after the last row of the data range.\<close>

definition appendRow :: "row \<Rightarrow> sheet \<Rightarrow> sheet" where
  "appendRow cells sh = sh @ [cells]"

text \<open>
  The content of the cell in row \<open>i\<close>, column \<open>j\<close> of the sheet, both counted from 0 as the
  indices of \<open>data[i][j]\<close> are: what \<open>sheet.getRange(i + 1, j + 1).getValue()\<close> reads.
\<close>

definition cellValue :: "sheet \<Rightarrow> nat \<Rightarrow> nat \<Rightarrow> cell" where
  "cellValue sh i j = (if i < length sh \<and> j < length (sh ! i) then sh ! i ! j else Str [])"

section \<open>The spreadsheet and the mail service\<close>

record mail =
  recipient :: string
  subject :: string
  body :: string
  htmlBody :: string
  name :: string
  replyTo :: string

text \<open>
  The state the program acts on: the sheet named \<open>CONFIG.TRACKING_SHEET_NAME\<close>
  (\<open>None\<close> when the spreadsheet has no such sheet) and the messages handed to
  \<open>GmailApp.sendEmail\<close>, oldest first. The spreadsheet and mail services are taken to be
  reachable: their calls return.
\<close>

record world =
  trackingSheet :: "sheet option"
  outbox :: "mail list"

section \<open>The open recorder (UI.gs)\<close>

text \<open>The loop of \<open>recordEmailOpen\<close>: \<open>for (let i = 1; i < data.length; i++)\<close>, left by \<open>break\<close>
  at the first row whose first cell is the tracking id.\<close>

function recordEmailOpen_loop ::
  "host \<Rightarrow> int \<Rightarrow> string \<Rightarrow> row list \<Rightarrow> nat \<Rightarrow> sheet \<Rightarrow> sheet" where
  "recordEmailOpen_loop h now trackingId data i sh =
     (if i < length data then
        (if cellAt (data ! i) 0 = Some (Str trackingId) then
           (if cellAt (data ! i) 5 = Some (Str ''No'') then
              setValue (i + 1) 6 (Str ''Yes'') (setValue (i + 1) 5 (Date now) sh)
            else
              (let currentViews = jsOr (cellAt (data ! i) 6) (Num 0)
               in setValue (i + 1) 7 (jsPlus h currentViews (Num 1)) sh))
         else recordEmailOpen_loop h now trackingId data (i + 1) sh)
      else sh)"
  by pat_completeness auto
termination
  by (relation "measure (\<lambda>(h, now, trackingId, data, i, sh). length data - i)") auto

declare recordEmailOpen_loop.simps [simp del]

definition recordEmailOpen :: "host \<Rightarrow> int \<Rightarrow> string \<Rightarrow> world \<Rightarrow> world" where
  "recordEmailOpen h now trackingId w =
     (case trackingSheet w of
        None \<Rightarrow> w
      | Some sh \<Rightarrow>
          w\<lparr>trackingSheet := Some (recordEmailOpen_loop h now trackingId (getValues sh) 1 sh)\<rparr>)"

text \<open>The request of a web app call: \<open>e.parameter\<close> maps a query parameter to its value.\<close>

record event =
  parameter :: "string \<rightharpoonup> string"

datatype mimeType = IMAGE | TEXT

datatype textOutput = TextOutput string mimeType

definition PIXEL_GIF :: string where
  "PIXEL_GIF = ''GIF89a'' @
     [CHR 0x01, CHR 0x00, CHR 0x01, CHR 0x00, CHR 0x80, CHR 0x00, CHR 0x00, CHR 0x00,
      CHR 0x00, CHR 0x00, CHR 0x00, CHR 0x00, CHR 0x00] @ ''!'' @
     [CHR 0xf9, CHR 0x04, CHR 0x01, CHR 0x00, CHR 0x00, CHR 0x00, CHR 0x00] @ '','' @
     [CHR 0x00, CHR 0x00, CHR 0x00, CHR 0x00, CHR 0x01, CHR 0x00, CHR 0x01, CHR 0x00,
      CHR 0x00, CHR 0x02, CHR 0x02] @ ''D'' @ [CHR 0x01, CHR 0x00] @ '';''"

text \<open>
  \<open>doGet(e)\<close>. A web request always carries \<open>e\<close>; a call without an argument (\<open>None\<close>)
  raises at \<open>e.parameter\<close> and is answered by the \<open>catch\<close> branch.
\<close>

definition doGet :: "host \<Rightarrow> int \<Rightarrow> event option \<Rightarrow> world \<Rightarrow> textOutput \<times> world" where
  "doGet h now e w =
     (case e of
        None \<Rightarrow> (TextOutput ''Error'' TEXT, w)
      | Some ev \<Rightarrow>
          (let trackingId = parameter ev ''id'';
               action = parameter ev ''action'';
               w' = (case trackingId of
                       None \<Rightarrow> w
                     | Some tid \<Rightarrow>
                         if action = Some ''open'' \<and> tid \<noteq> [] then recordEmailOpen h now tid w
                         else w)
           in (TextOutput PIXEL_GIF IMAGE, w')))"

text \<open>Requests served one after another, each with the clock reading at its arrival.\<close>

fun serveAll :: "host \<Rightarrow> (int \<times> event option) list \<Rightarrow> world \<Rightarrow> world" where
  "serveAll h [] w = w"
| "serveAll h ((now, e) # rs) w = serveAll h rs (snd (doGet h now e w))"

section \<open>Token issue and sending (Email.gs, Core.gs)\<close>

definition WEB_APP_URL :: string where
  "WEB_APP_URL = ''https://script.google.com/macros/s/AKfycbyZTRbYV2UJz0MtQWIOS4uilC87fUWuOUoNM5Lj7QOiR3dP5cUqviREKN9FbH6xeBg-PQ/exec''"

definition EMAIL_SENDER_NAME :: string where
  "EMAIL_SENDER_NAME = ''Back Market Quality Team''"

definition EMAIL_SENDER_ADDRESS :: string where
  "EMAIL_SENDER_ADDRESS = ''yuho.suzuki@backmarket.com''"

definition SELLER_SUPPORT_CENTER_URL :: string where
  "SELLER_SUPPORT_CENTER_URL = ''https://drive.google.com/drive/u/0/folders/1UvnSv6Knxu0-VHu01KFn7MP8A8pYmML4''"

definition QUALITY_DASHBOARD_URL :: string where
  "QUALITY_DASHBOARD_URL = ''https://www.backmarket.fr/bo_merchant/insights?tableau=quality-dashboard''"

definition TRACKING_HEADER :: row where
  "TRACKING_HEADER = [Str ''Tracking ID'', Str ''Email'', Str ''Seller ID'', Str ''Send Date'',
     Str ''Open Date'', Str ''Opened'', Str ''Views'']"

text \<open>
  \<open>recordTrackingId\<close>: the sheet is inserted, with its header row, when the spreadsheet has
  none; the record is appended after the last row. \<open>email\<close> and \<open>sellerId\<close> are the values
  of the seller row, stored as they are.
\<close>

definition recordTrackingId :: "int \<Rightarrow> string \<Rightarrow> cell \<Rightarrow> cell \<Rightarrow> world \<Rightarrow> world" where
  "recordTrackingId now trackingId email sellerId w =
     (let trackingSheet0 =
            (case trackingSheet w of
               None \<Rightarrow> appendRow TRACKING_HEADER []
             | Some sh \<Rightarrow> sh)
      in w\<lparr>trackingSheet :=
             Some (appendRow [Str trackingId, email, sellerId, Date now, Str [], Str ''No'', Num 0]
                     trackingSheet0)\<rparr>)"

text \<open>
  \<open>generateTrackingPixel\<close>; \<open>uuid\<close> is what \<open>Utilities.getUuid()\<close> returns to this call and
  \<open>now\<close> what \<open>new Date()\<close> reads.
\<close>

definition generateTrackingPixel ::
  "string \<Rightarrow> int \<Rightarrow> cell \<Rightarrow> cell \<Rightarrow> world \<Rightarrow> string \<times> world" where
  \<open>generateTrackingPixel uuid now sellerEmail sellerId w =
     (let trackingId = uuid;
          w' = recordTrackingId now trackingId sellerEmail sellerId w;
          trackingUrl = WEB_APP_URL @ ''?id='' @ trackingId @ ''&action=open''
      in (''<img src="'' @ trackingUrl @ ''" width="1" height="1" alt="" style="display:none">'', w'))\<close>

record rowData =
  sellerId :: cell
  sellerName :: cell
  sellerEmail :: cell
  result :: cell
  reportLink :: cell
  sellerSupportCenterUrl :: string
  qualityDashboardUrl :: string

definition extractRowData :: "row \<Rightarrow> rowData" where
  "extractRowData r =
     \<lparr>sellerId = jsOr (cellAt r 0) (Str []),
      sellerName = jsOr (cellAt r 1) (Str []),
      sellerEmail = jsOr (cellAt r 2) (Str []),
      result = jsOr (cellAt r 3) (Str []),
      reportLink = jsOr (cellAt r 4) (Str []),
      sellerSupportCenterUrl = SELLER_SUPPORT_CENTER_URL,
      qualityDashboardUrl = QUALITY_DASHBOARD_URL\<rparr>"

text \<open>
  White space as \<open>\s\<close> and \<open>trim\<close> see it, among the characters below 256: tab, line feed,
  vertical tab, form feed, carriage return, space, no-break space.
\<close>

definition isSpace :: "char \<Rightarrow> bool" where
  "isSpace c = (c = CHR 0x09 \<or> c = CHR 0x0A \<or> c = CHR 0x0B \<or> c = CHR 0x0C \<or> c = CHR 0x0D \<or>
                c = CHR 0x20 \<or> c = CHR 0xA0)"

text \<open>The class \<open>[^\s@]\<close>.\<close>

definition plainChar :: "char \<Rightarrow> bool" where
  "plainChar c = (\<not> isSpace c \<and> c \<noteq> CHR ''@'')"

text \<open>
  \<open>isValidEmail\<close>: the string matches \<open>/^[^\s@]+@[^\s@]+\.[^\s@]+$/\<close>. Its first character
  outside the class is an \<open>@\<close> after a non-empty local part, and what follows has only
  characters of the class, one of them a dot that is neither first nor last.
\<close>

definition isValidEmail :: "string \<Rightarrow> bool" where
  "isValidEmail email =
     (takeWhile plainChar email \<noteq> [] \<and>
      (case dropWhile plainChar email of
         [] \<Rightarrow> False
       | c # domain \<Rightarrow>
           c = CHR ''@'' \<and> list_all plainChar domain \<and> CHR ''.'' \<in> set (butlast (tl domain))))"

text \<open>\<open>s.split(',')\<close>.\<close>

fun splitComma :: "string \<Rightarrow> string list" where
  "splitComma [] = [[]]"
| "splitComma (c # cs) =
     (if c = CHR '','' then [] # splitComma cs
      else (case splitComma cs of
              [] \<Rightarrow> [[c]]
            | x # xs \<Rightarrow> (c # x) # xs))"

definition trim :: "string \<Rightarrow> string" where
  "trim s = rev (dropWhile isSpace (rev (dropWhile isSpace s)))"

text \<open>\<open>GmailApp.sendEmail(recipient, subject, body, options)\<close>.\<close>

definition sendEmail :: "string \<Rightarrow> string \<Rightarrow> string \<Rightarrow> string \<Rightarrow> world \<Rightarrow> world" where
  "sendEmail email subj fallback html w =
     w\<lparr>outbox := outbox w @
         [\<lparr>recipient = email, subject = subj, body = fallback, htmlBody = html,
           name = EMAIL_SENDER_NAME, replyTo = EMAIL_SENDER_ADDRESS\<rparr>]\<rparr>"

text \<open>The loop \<open>for (const email of emailAddresses)\<close> with its counter \<open>successCount\<close>.\<close>

fun sendNotificationEmail_loop ::
  "host \<Rightarrow> string \<Rightarrow> rowData \<Rightarrow> string \<Rightarrow> string list \<Rightarrow> world \<times> nat \<Rightarrow> world \<times> nat" where
  "sendNotificationEmail_loop h htmlForEmail d subj [] (w, successCount) = (w, successCount)"
| "sendNotificationEmail_loop h htmlForEmail d subj (email # rest) (w, successCount) =
     sendNotificationEmail_loop h htmlForEmail d subj rest
       (if isValidEmail email then
          (sendEmail email subj
             (''Mystery Order Test Result for '' @ jsToString h (sellerName d) @
              ''. Please view this email in HTML format for complete information.'')
             htmlForEmail w,
           successCount + 1)
        else (w, successCount))"

text \<open>
  \<open>sendNotificationEmail\<close>. The template is the function from the data assigned to it to the
  content it evaluates to. A \<open>sellerEmail\<close> that is not a string has no \<open>split\<close>: the call
  raises after the pixel was generated, and the \<open>catch\<close> returns \<open>false\<close>.
\<close>

definition sendNotificationEmail ::
  "host \<Rightarrow> string \<Rightarrow> int \<Rightarrow> (rowData \<Rightarrow> string) \<Rightarrow> rowData \<Rightarrow> string \<Rightarrow> world \<Rightarrow> bool \<times> world" where
  "sendNotificationEmail h uuid now htmlTemplate d subj w =
     (let htmlForEmail0 = htmlTemplate d;
          (trackingPixel, w1) = generateTrackingPixel uuid now (sellerEmail d) (sellerId d) w;
          htmlForEmail = htmlForEmail0 @ trackingPixel
      in (case sellerEmail d of
            Str s \<Rightarrow>
              (let emailAddresses = map trim (splitComma s);
                   (w2, successCount) =
                      sendNotificationEmail_loop h htmlForEmail d subj emailAddresses (w1, 0)
               in (successCount > 0, w2))
          | _ \<Rightarrow> (False, w1)))"

section \<open>Statistics (Email.gs)\<close>

text \<open>\<open>Number(v)\<close>.\<close>

fun jsNumber :: "host \<Rightarrow> cell \<Rightarrow> jsnum" where
  "jsNumber h (Num n) = Fin n"
| "jsNumber h (Str s) = stringToNumber h s"
| "jsNumber h (Bool b) = Fin (if b then 1 else 0)"
| "jsNumber h (Date d) = Fin d"

fun jsnumAdd :: "jsnum \<Rightarrow> jsnum \<Rightarrow> jsnum" where
  "jsnumAdd (Fin a) (Fin b) = Fin (a + b)"
| "jsnumAdd _ _ = NaN"

text \<open>\<open>new Date(v)\<close>: the time value, \<open>None\<close> for an invalid date.\<close>

fun newDate :: "host \<Rightarrow> jsval \<Rightarrow> int option" where
  "newDate h None = None"
| "newDate h (Some (Date d)) = Some d"
| "newDate h (Some (Str s)) = parseDate h s"
| "newDate h (Some (Num n)) = (if \<bar>n\<bar> \<le> 8640000000000000 then Some n else None)"
| "newDate h (Some (Bool b)) = Some (if b then 1 else 0)"

text \<open>
  \<open>x.toFixed(2)\<close> of a quotient, computed exactly: the nearest multiple of 1/100, the larger
  one of two that are equally near, with two digits after the point. The program rounds the
  double nearest to the quotient instead, which can give the neighbouring multiple when the
  exact quotient lies halfway between two (\<open>23 / 160 * 100\<close>), and writes an exponent from
  \<open>1e21\<close> on; the results below use it where the two agree.
\<close>

definition hundredths :: "nat \<Rightarrow> string" where
  "hundredths n = showNat (n div 100) @ ''.'' @ [digit (n mod 100 div 10), digit (n mod 10)]"

definition toFixed2 :: "rat \<Rightarrow> string" where
  "toFixed2 x = (if x < 0 then ''-'' else []) @ hundredths (nat \<lfloor>\<bar>x\<bar> * 100 + 1 / 2\<rfloor>)"

record counters =
  openedEmails_c :: nat
  totalViews_c :: jsnum
  lastWeekEmails_c :: nat
  lastWeekOpened_c :: nat

text \<open>The loop of \<open>getEmailStats\<close>: \<open>for (let i = 1; i < data.length; i++)\<close>.\<close>

function getEmailStats_loop ::
  "host \<Rightarrow> int \<Rightarrow> row list \<Rightarrow> nat \<Rightarrow> counters \<Rightarrow> counters" where
  "getEmailStats_loop h oneWeekAgo data i c =
     (if i < length data then
        (let sendDate = newDate h (cellAt (data ! i) 3);
             c1 = (if cellAt (data ! i) 5 = Some (Str ''Yes'') then
                     c\<lparr>openedEmails_c := openedEmails_c c + 1,
                       totalViews_c :=
                         jsnumAdd (totalViews_c c) (jsNumber h (jsOr (cellAt (data ! i) 6) (Num 1)))\<rparr>
                   else c);
             c2 = (if (case sendDate of None \<Rightarrow> False | Some t \<Rightarrow> t > oneWeekAgo) then
                     (if cellAt (data ! i) 5 = Some (Str ''Yes'') then
                        c1\<lparr>lastWeekEmails_c := lastWeekEmails_c c1 + 1,
                           lastWeekOpened_c := lastWeekOpened_c c1 + 1\<rparr>
                      else c1\<lparr>lastWeekEmails_c := lastWeekEmails_c c1 + 1\<rparr>)
                   else c1)
         in getEmailStats_loop h oneWeekAgo data (i + 1) c2)
      else c)"
  by pat_completeness auto
termination
  by (relation "measure (\<lambda>(h, oneWeekAgo, data, i, c). length data - i)") auto

declare getEmailStats_loop.simps [simp del]

record stats =
  totalEmails :: nat
  openedEmails :: nat
  openRate :: string
  totalViews :: jsnum
  averageViews :: cell
  lastWeekEmails :: nat
  lastWeekOpened :: nat
  lastWeekOpenRate :: string

datatype statsResult = Failure string | Statistics stats

text \<open>\<open>b > 0 ? (a / b * 100).toFixed(2) : 0\<close>, as the template literal prints it.\<close>

definition rate :: "nat \<Rightarrow> nat \<Rightarrow> string" where
  "rate a b = (if b > 0 then toFixed2 (of_nat a / of_nat b * 100) else ''0'')"

text \<open>\<open>openedEmails > 0 ? (totalViews / openedEmails).toFixed(2) : 0\<close>.\<close>

definition avgViews :: "jsnum \<Rightarrow> nat \<Rightarrow> cell" where
  "avgViews tv opened =
     (if opened > 0 then
        (case tv of
           Fin t \<Rightarrow> Str (toFixed2 (of_int t / of_nat opened))
         | NaN \<Rightarrow> Str ''NaN'')
      else Num 0)"

text \<open>\<open>getEmailStats\<close>; \<open>today\<close> is what \<open>new Date()\<close> reads.\<close>

definition getEmailStats :: "host \<Rightarrow> int \<Rightarrow> world \<Rightarrow> statsResult" where
  "getEmailStats h today w =
     (case trackingSheet w of
        None \<Rightarrow>
          Failure ''Tracking sheet not found. It will be created automatically after emails are sent.''
      | Some sh \<Rightarrow>
          (let data = getValues sh
           in if length data \<le> 1 then
                Failure ''No tracking data available. Statistics will appear after emails are sent.''
              else
                (let totalEmails = length data - 1;
                     oneWeekAgo = weekBefore h today;
                     c = getEmailStats_loop h oneWeekAgo data 1
                           \<lparr>openedEmails_c = 0, totalViews_c = Fin 0,
                            lastWeekEmails_c = 0, lastWeekOpened_c = 0\<rparr>
                 in Statistics
                      \<lparr>totalEmails = totalEmails,
                       openedEmails = openedEmails_c c,
                       openRate = rate (openedEmails_c c) totalEmails @ ''%'',
                       totalViews = totalViews_c c,
                       averageViews = avgViews (totalViews_c c) (openedEmails_c c),
                       lastWeekEmails = lastWeekEmails_c c,
                       lastWeekOpened = lastWeekOpened_c c,
                       lastWeekOpenRate = rate (lastWeekOpened_c c) (lastWeekEmails_c c) @ ''%''\<rparr>)))"

section \<open>Requests and a sample store\<close>

text \<open>An open-recorder hit for a token: a request with \<open>action=open\<close> and \<open>id\<close> the token.\<close>

definition openRequest :: "string \<Rightarrow> event option \<Rightarrow> bool" where
  "openRequest tok e =
     (case e of
        None \<Rightarrow> False
      | Some ev \<Rightarrow> parameter ev ''id'' = Some tok \<and> parameter ev ''action'' = Some ''open'')"

text \<open>A runtime, a store of two records and the request the pixel of a token fires.\<close>

definition demoHost :: host where
  "demoHost = \<lparr>dateString = showInt, stringToNumber = (\<lambda>s. NaN), parseDate = (\<lambda>s. None),
     weekBefore = (\<lambda>t. t - 604800000)\<rparr>"

definition demoSheet :: sheet where
  "demoSheet =
     [TRACKING_HEADER,
      [Str ''tok-1'', Str ''a@x.com'', Str ''S1'', Date 1000, Str [], Str ''No'', Num 0],
      [Str ''tok-2'', Str ''b@x.com'', Str ''S2'', Date 2000, Date 3000, Str ''Yes'', Num 3]]"

definition demoWorld :: world where
  "demoWorld = \<lparr>trackingSheet = Some demoSheet, outbox = []\<rparr>"

definition openEvent :: "string \<Rightarrow> event" where
  "openEvent tok = \<lparr>parameter = [''id'' \<mapsto> tok, ''action'' \<mapsto> ''open'']\<rparr>"

text \<open>The data rows whose Opened cell is \<open>Yes\<close>, by their index in the sheet.\<close>

definition openedRows :: "sheet \<Rightarrow> nat list" where
  "openedRows sh = filter (\<lambda>j. cellValue sh j 5 = Str ''Yes'') [1..<length sh]"

text \<open>
  A store of ten records, four of them opened: one with Views 3, three with Views 0; and the
  statistics the program computes for it when the clock reads \<open>1000000000\<close>.
\<close>

definition scenarioSheet :: sheet where
  "scenarioSheet =
     [TRACKING_HEADER,
      [Str ''t01'', Str ''s01@x.com'', Str ''S01'', Date 100000000, Str [], Str ''No'', Num 0],
      [Str ''t02'', Str ''s02@x.com'', Str ''S02'', Date 200000000, Date 250000000, Str ''Yes'', Num 3],
      [Str ''t03'', Str ''s03@x.com'', Str ''S03'', Date 300000000, Str [], Str ''No'', Num 0],
      [Str ''t04'', Str ''s04@x.com'', Str ''S04'', Date 400000000, Str [], Str ''No'', Num 0],
      [Str ''t05'', Str ''s05@x.com'', Str ''S05'', Date 500000000, Date 550000000, Str ''Yes'', Num 0],
      [Str ''t06'', Str ''s06@x.com'', Str ''S06'', Date 600000000, Date 650000000, Str ''Yes'', Num 0],
      [Str ''t07'', Str ''s07@x.com'', Str ''S07'', Date 700000000, Str [], Str ''No'', Num 0],
      [Str ''t08'', Str ''s08@x.com'', Str ''S08'', Date 800000000, Str [], Str ''No'', Num 0],
      [Str ''t09'', Str ''s09@x.com'', Str ''S09'', Date 900000000, Date 950000000, Str ''Yes'', Num 0],
      [Str ''t10'', Str ''s10@x.com'', Str ''S10'', Date 1000000000, Str [], Str ''No'', Num 0]]"

definition scenarioWorld :: world where
  "scenarioWorld = \<lparr>trackingSheet = Some scenarioSheet, outbox = []\<rparr>"

definition scenarioStats :: stats where
  "scenarioStats =
     \<lparr>totalEmails = 10, openedEmails = 4, openRate = ''40.00%'', totalViews = Fin 6,
      averageViews = Str ''1.50'', lastWeekEmails = 7, lastWeekOpened = 3,
      lastWeekOpenRate = ''42.86%''\<rparr>"

text \<open>A template and a seller row with two addresses in its email field.\<close>

definition demoTemplate :: "rowData \<Rightarrow> string" where
  "demoTemplate d = ''<html><body>'' @ jsToString demoHost (sellerName d) @ ''</body></html>''"

definition twoRecipients :: rowData where
  "twoRecipients =
     \<lparr>sellerId = Str ''S7'', sellerName = Str ''Seller Seven'', sellerEmail = Str ''a@x.com, b@x.com'',
      result = Str ''Passed'', reportLink = Str ''https://example.com/r7'',
      sellerSupportCenterUrl = SELLER_SUPPORT_CENTER_URL,
      qualityDashboardUrl = QUALITY_DASHBOARD_URL\<rparr>"

text \<open>The rows of the tracking sheet once \<open>recordTrackingId\<close> has made sure that it exists.\<close>

definition sheetRows :: "world \<Rightarrow> sheet" where
  "sheetRows w = (case trackingSheet w of None \<Rightarrow> [TRACKING_HEADER] | Some sh \<Rightarrow> sh)"

text \<open>The markup of the pixel for a token.\<close>

definition pixelMarkup :: "string \<Rightarrow> string" where
  \<open>pixelMarkup tok = ''<img src="'' @ WEB_APP_URL @ ''?id='' @ tok @ ''&action=open'' @
     ''" width="1" height="1" alt="" style="display:none">''\<close>

text \<open>The message \<open>sendNotificationEmail\<close> hands to the mail service for one address.\<close>

definition notification :: "host \<Rightarrow> string \<Rightarrow> rowData \<Rightarrow> string \<Rightarrow> string \<Rightarrow> mail" where
  "notification h html d subj email =
     \<lparr>recipient = email, subject = subj,
      body = ''Mystery Order Test Result for '' @ jsToString h (sellerName d) @
             ''. Please view this email in HTML format for complete information.'',
      htmlBody = html, name = EMAIL_SENDER_NAME, replyTo = EMAIL_SENDER_ADDRESS\<rparr>"

section \<open>Hits that run at the same time\<close>

text \<open>
  \<open>recordEmailOpen\<close> takes no lock: an execution reads the sheet once, with \<open>getValues\<close>,
  and later writes from what it read, to the sheet as it is by then. Executions of the web app
  run at the same time, so the reads and writes of several hits interleave. The hits here are
  executions of \<open>recordEmailOpen\<close> for one tracking id on an existing tracking sheet. A turn
  is a step of the hit with the given number: its read, or its writes, which are applied
  together.
\<close>

datatype turn = Reads nat | Writes nat

text \<open>
  The sheet, what each hit that has read and not yet written holds in \<open>data\<close>, and the
  number of hits that have finished.
\<close>

record race =
  sheetNow :: sheet
  snapshots :: "nat \<rightharpoonup> row list"
  completed :: nat

text \<open>
  One turn: the read takes the snapshot; the write runs the loop of \<open>recordEmailOpen\<close> on
  the snapshot against the current sheet, with the clock reading of that hit. A write of a
  hit that holds no snapshot does nothing.
\<close>

fun raceStep :: "host \<Rightarrow> (nat \<Rightarrow> int) \<Rightarrow> string \<Rightarrow> turn \<Rightarrow> race \<Rightarrow> race" where
  "raceStep h clock trackingId (Reads i) s =
     s\<lparr>snapshots := (snapshots s)(i \<mapsto> getValues (sheetNow s))\<rparr>"
| "raceStep h clock trackingId (Writes i) s =
     (case snapshots s i of
        None \<Rightarrow> s
      | Some data \<Rightarrow>
          s\<lparr>sheetNow := recordEmailOpen_loop h (clock i) trackingId data 1 (sheetNow s),
            snapshots := (snapshots s)(i := None),
            completed := completed s + 1\<rparr>)"

fun raceRun :: "host \<Rightarrow> (nat \<Rightarrow> int) \<Rightarrow> string \<Rightarrow> turn list \<Rightarrow> race \<Rightarrow> race" where
  "raceRun h clock trackingId [] s = s"
| "raceRun h clock trackingId (t # ts) s = raceRun h clock trackingId ts (raceStep h clock trackingId t s)"

definition raceStart :: "sheet \<Rightarrow> race" where
  "raceStart sh = \<lparr>sheetNow = sh, snapshots = Map.empty, completed = 0\<rparr>"

text \<open>The schedule in which each hit reads and writes before the next one reads.\<close>

definition oneByOne :: "nat \<Rightarrow> turn list" where
  "oneByOne K = concat (map (\<lambda>i. [Reads i, Writes i]) [0..<K])"

text \<open>A clock: the time at which the hit with a given number writes.\<close>

definition demoClock :: "nat \<Rightarrow> int" where
  "demoClock i = 5000 + 1000 * int i"

text \<open>
  What every interleaving preserves: the token column; a record nobody has finished on is
  still fresh; after \<open>n \<ge> 1\<close> finished hits it is opened with Views between \<open>0\<close> and
  \<open>n - 1\<close>; and every snapshot was taken of a sheet of which the same held.
\<close>

definition sameTokens :: "sheet \<Rightarrow> sheet \<Rightarrow> bool" where
  "sameTokens sh sh' \<longleftrightarrow> length sh' = length sh \<and> (\<forall>j. cellValue sh' j 0 = cellValue sh j 0)"

definition countedRow :: "nat \<Rightarrow> nat \<Rightarrow> sheet \<Rightarrow> bool" where
  "countedRow k n sh \<longleftrightarrow>
     cellValue sh k 5 = Str ''Yes'' \<and> 1 \<le> n \<and>
     (\<exists>v. cellValue sh k 6 = Num v \<and> 0 \<le> v \<and> v \<le> int n - 1)"

definition freshRow :: "nat \<Rightarrow> sheet \<Rightarrow> bool" where
  "freshRow k sh \<longleftrightarrow> cellValue sh k 5 = Str ''No'' \<and> cellValue sh k 6 = Num 0"

definition raceInv :: "sheet \<Rightarrow> nat \<Rightarrow> race \<Rightarrow> bool" where
  "raceInv sh k s \<longleftrightarrow>
     sameTokens sh (sheetNow s) \<and>
     (if completed s = 0 then freshRow k (sheetNow s) else countedRow k (completed s) (sheetNow s)) \<and>
     (\<forall>i data. snapshots s i = Some data \<longrightarrow>
        (\<exists>sh0. data = getValues sh0 \<and> sameTokens sh sh0 \<and>
           (cellValue sh0 k 5 = Str ''No'' \<or> countedRow k (completed s) sh0)))"

section \<open>The sheet service\<close>

lemma width_Max: "width sh = Max (set (0 # map length sh))"
  unfolding width_def by (simp only: Max.set_eq_fold)

lemma length_le_width: "i < length sh \<Longrightarrow> length (sh ! i) \<le> width sh"
  unfolding width_Max by (rule Max_ge) auto

lemma length_getValues: "sh \<noteq> [] \<Longrightarrow> length (getValues sh) = length sh"
  by (simp add: getValues_def)

lemma length_getValues_le: "i < length (getValues sh) \<Longrightarrow> 1 \<le> i \<Longrightarrow> i < length sh"
  by (cases "sh = []") (simp_all add: getValues_def)

lemma cellAt_getValues:
  "i < length sh \<Longrightarrow>
   cellAt (getValues sh ! i) j = (if j < max 1 (width sh) then Some (cellValue sh i j) else None)"
  using length_le_width [of i sh]
  by (auto simp: getValues_def cellAt_def cellValue_def padRow_def nth_append)

lemma length_setValue: "r \<le> length sh \<Longrightarrow> length (setValue r c v sh) = length sh"
  by (simp add: setValue_def Let_def)

lemma cellValue_setValue:
  "0 < r \<Longrightarrow> 0 < c \<Longrightarrow>
   cellValue (setValue r c v sh) i j = (if i = r - 1 \<and> j = c - 1 then v else cellValue sh i j)"
  by (auto simp: setValue_def cellValue_def Let_def padRow_def nth_append nth_list_update)

lemma loop_no_match:
  "(\<And>j. i \<le> j \<Longrightarrow> j < length data \<Longrightarrow> cellAt (data ! j) 0 \<noteq> Some (Str tid)) \<Longrightarrow>
   recordEmailOpen_loop h now tid data i sh = sh"
proof (induction h now tid data i sh rule: recordEmailOpen_loop.induct)
  case (1 h now tid data i sh)
  show ?case
  proof (cases "i < length data")
    case True
    with "1.prems" [of i] have nm: "cellAt (data ! i) 0 \<noteq> Some (Str tid)" by simp
    have "recordEmailOpen_loop h now tid data (i + 1) sh = sh"
      using True nm "1.prems" by (intro "1.IH") auto
    with True nm show ?thesis by (subst recordEmailOpen_loop.simps) simp
  next
    case False
    then show ?thesis by (subst recordEmailOpen_loop.simps) simp
  qed
qed

lemma loop_first_match:
  "i \<le> k \<Longrightarrow> k < length data \<Longrightarrow> cellAt (data ! k) 0 = Some (Str tid) \<Longrightarrow>
   (\<And>j. i \<le> j \<Longrightarrow> j < k \<Longrightarrow> cellAt (data ! j) 0 \<noteq> Some (Str tid)) \<Longrightarrow>
   recordEmailOpen_loop h now tid data i sh =
     (if cellAt (data ! k) 5 = Some (Str ''No'') then
        setValue (k + 1) 6 (Str ''Yes'') (setValue (k + 1) 5 (Date now) sh)
      else setValue (k + 1) 7 (jsPlus h (jsOr (cellAt (data ! k) 6) (Num 0)) (Num 1)) sh)"
proof (induction h now tid data i sh rule: recordEmailOpen_loop.induct)
  case (1 h now tid data i sh)
  show ?case
  proof (cases "i = k")
    case True
    with "1.prems" show ?thesis by (subst recordEmailOpen_loop.simps) (simp add: Let_def)
  next
    case False
    with "1.prems" have lt: "i < k" "i < length data" by auto
    with "1.prems"(4) [of i] have nm: "cellAt (data ! i) 0 \<noteq> Some (Str tid)" by simp
    have "recordEmailOpen_loop h now tid data (i + 1) sh =
       (if cellAt (data ! k) 5 = Some (Str ''No'') then
        setValue (k + 1) 6 (Str ''Yes'') (setValue (k + 1) 5 (Date now) sh)
      else setValue (k + 1) 7 (jsPlus h (jsOr (cellAt (data ! k) 6) (Num 0)) (Num 1)) sh)"
      using lt nm "1.prems" by (intro "1.IH") auto
    with lt nm show ?thesis by (subst recordEmailOpen_loop.simps) simp
  qed
qed

section \<open>One request\<close>

lemma sheet_no_match:
  assumes "\<And>j. 1 \<le> j \<Longrightarrow> j < length sh \<Longrightarrow> cellValue sh j 0 \<noteq> Str tid"
  shows "recordEmailOpen_loop h now tid (getValues sh) 1 sh = sh"
proof (rule loop_no_match)
  fix j assume j: "1 \<le> j" "j < length (getValues sh)"
  then have "j < length sh" by (rule length_getValues_le [rotated])
  with j assms [of j] show "cellAt (getValues sh ! j) 0 \<noteq> Some (Str tid)"
    by (simp add: cellAt_getValues)
qed

lemma opened_cell_getValues:
  assumes "k < length sh"
  shows "cellAt (getValues sh ! k) 5 = Some (Str ''No'') \<longleftrightarrow> cellValue sh k 5 = Str ''No''"
proof -
  have "cellValue sh k 5 = Str ''No'' \<Longrightarrow> 5 < width sh"
    using length_le_width [OF assms] by (auto simp: cellValue_def split: if_splits)
  with assms show ?thesis by (auto simp: cellAt_getValues)
qed

lemma views_cell_getValues:
  assumes "k < length sh"
  shows "jsOr (cellAt (getValues sh ! k) 6) (Num 0) = jsOr (Some (cellValue sh k 6)) (Num 0)"
proof (cases "6 < width sh")
  case True
  with assms show ?thesis by (simp add: cellAt_getValues)
next
  case False
  with length_le_width [OF assms] have "cellValue sh k 6 = Str []"
    by (auto simp: cellValue_def)
  with False assms show ?thesis by (simp add: cellAt_getValues jsOr_def)
qed

lemma sheet_first_match:
  assumes "1 \<le> k" "k < length sh" "cellValue sh k 0 = Str tid"
    and first: "\<And>j. 1 \<le> j \<Longrightarrow> j < k \<Longrightarrow> cellValue sh j 0 \<noteq> Str tid"
  shows "recordEmailOpen_loop h now tid (getValues sh) 1 sh =
     (if cellValue sh k 5 = Str ''No'' then
        setValue (k + 1) 6 (Str ''Yes'') (setValue (k + 1) 5 (Date now) sh)
      else setValue (k + 1) 7 (jsPlus h (jsOr (Some (cellValue sh k 6)) (Num 0)) (Num 1)) sh)"
proof -
  from assms(2) have ne: "sh \<noteq> []" by auto
  have "recordEmailOpen_loop h now tid (getValues sh) 1 sh =
     (if cellAt (getValues sh ! k) 5 = Some (Str ''No'') then
        setValue (k + 1) 6 (Str ''Yes'') (setValue (k + 1) 5 (Date now) sh)
      else setValue (k + 1) 7 (jsPlus h (jsOr (cellAt (getValues sh ! k) 6) (Num 0)) (Num 1)) sh)"
  proof (rule loop_first_match)
    show "1 \<le> k" by fact
    show "k < length (getValues sh)" using assms(2) ne by (simp add: length_getValues)
    show "cellAt (getValues sh ! k) 0 = Some (Str tid)"
      using assms(2,3) by (simp add: cellAt_getValues)
    fix j assume "1 \<le> j" "j < k"
    with first [of j] assms(2) show "cellAt (getValues sh ! j) 0 \<noteq> Some (Str tid)"
      by (simp add: cellAt_getValues)
  qed
  then show ?thesis
    using assms(2) by (simp add: opened_cell_getValues views_cell_getValues)
qed

text \<open>The least data row holding a token, when some data row holds it.\<close>

lemma first_row_with_token:
  assumes "\<exists>j. 1 \<le> j \<and> j < length sh \<and> cellValue sh j 0 = Str tid"
  shows "\<exists>k. 1 \<le> k \<and> k < length sh \<and> cellValue sh k 0 = Str tid \<and>
           (\<forall>j. 1 \<le> j \<and> j < k \<longrightarrow> cellValue sh j 0 \<noteq> Str tid)"
proof -
  define P where "P j \<longleftrightarrow> 1 \<le> j \<and> j < length sh \<and> cellValue sh j 0 = Str tid" for j
  from assms have ex: "\<exists>j. P j" by (simp add: P_def)
  define k where "k = (LEAST j. P j)"
  from ex have Pk: "P k" unfolding k_def by (auto intro: LeastI)
  have least: "\<And>j. j < k \<Longrightarrow> \<not> P j" unfolding k_def by (rule not_less_Least)
  have "\<forall>j. 1 \<le> j \<and> j < k \<longrightarrow> cellValue sh j 0 \<noteq> Str tid"
    using least Pk by (auto simp: P_def)
  with Pk show ?thesis by (auto simp: P_def)
qed

lemma doGet_snd:
  "snd (doGet h now e w) =
     (case e of None \<Rightarrow> w
      | Some ev \<Rightarrow>
         (case parameter ev ''id'' of None \<Rightarrow> w
          | Some tid \<Rightarrow> if parameter ev ''action'' = Some ''open'' \<and> tid \<noteq> [] 
                        then recordEmailOpen h now tid w else w))"
  by (simp add: doGet_def Let_def split: option.splits)

lemma doGet_fst:
  "fst (doGet h now (Some ev) w) = TextOutput PIXEL_GIF IMAGE"
  by (simp add: doGet_def Let_def split: option.splits)

text \<open>
  C4. A request whose \<open>action\<close> is absent or is not exactly \<open>open\<close>, whose \<open>id\<close> is absent,
  or whose \<open>id\<close> is the token of no data row of the tracking sheet, leaves the whole state as
  it was and is answered with the fixed 1x1 transparent GIF.
\<close>

theorem doGet_ignores_bad_request:
  assumes "parameter ev ''action'' = None \<or> parameter ev ''action'' \<noteq> Some ''open'' \<or>
           parameter ev ''id'' = None \<or>
           (\<exists>tid. parameter ev ''id'' = Some tid \<and>
              (\<forall>sh. trackingSheet w = Some sh \<longrightarrow>
                 (\<forall>j. 1 \<le> j \<and> j < length sh \<longrightarrow> cellValue sh j 0 \<noteq> Str tid)))"
  shows "doGet h now (Some ev) w = (TextOutput PIXEL_GIF IMAGE, w)"
proof -
  have "snd (doGet h now (Some ev) w) = w"
  proof (cases "parameter ev ''id''")
    case None
    then show ?thesis by (simp add: doGet_snd)
  next
    case (Some tid)
    show ?thesis
    proof (cases "parameter ev ''action'' = Some ''open'' \<and> tid \<noteq> []")
      case False
      with Some show ?thesis by (auto simp: doGet_snd)
    next
      case True
      with assms Some have nm: "\<forall>sh. trackingSheet w = Some sh \<longrightarrow>
                 (\<forall>j. 1 \<le> j \<and> j < length sh \<longrightarrow> cellValue sh j 0 \<noteq> Str tid)" by auto
      have "recordEmailOpen h now tid w = w"
      proof (cases "trackingSheet w")
        case None
        then show ?thesis by (simp add: recordEmailOpen_def)
      next
        case (Some sh)
        with nm have "recordEmailOpen_loop h now tid (getValues sh) 1 sh = sh"
          by (intro sheet_no_match) auto
        with Some show ?thesis by (simp add: recordEmailOpen_def)
      qed
      with Some True show ?thesis by (simp add: doGet_snd)
    qed
  qed
  with doGet_fst [of h now ev w] show ?thesis by (simp add: prod_eq_iff)
qed

lemma recordEmailOpen_cases:
  assumes "trackingSheet w = Some sh"
  obtains (unchanged) "recordEmailOpen h now tid w = w"
      "\<And>j. 1 \<le> j \<Longrightarrow> j < length sh \<Longrightarrow> cellValue sh j 0 \<noteq> Str tid"
    | (first_open) k where "1 \<le> k" "k < length sh" "cellValue sh k 0 = Str tid"
      "\<And>j. 1 \<le> j \<Longrightarrow> j < k \<Longrightarrow> cellValue sh j 0 \<noteq> Str tid"
      "cellValue sh k 5 = Str ''No''"
      "recordEmailOpen h now tid w =
         w\<lparr>trackingSheet := Some (setValue (k + 1) 6 (Str ''Yes'') (setValue (k + 1) 5 (Date now) sh))\<rparr>"
    | (view) k where "1 \<le> k" "k < length sh" "cellValue sh k 0 = Str tid"
      "\<And>j. 1 \<le> j \<Longrightarrow> j < k \<Longrightarrow> cellValue sh j 0 \<noteq> Str tid"
      "cellValue sh k 5 \<noteq> Str ''No''"
      "recordEmailOpen h now tid w =
         w\<lparr>trackingSheet := Some (setValue (k + 1) 7
              (jsPlus h (jsOr (Some (cellValue sh k 6)) (Num 0)) (Num 1)) sh)\<rparr>"
proof (cases "\<exists>j. 1 \<le> j \<and> j < length sh \<and> cellValue sh j 0 = Str tid")
  case False
  then have nm: "\<And>j. 1 \<le> j \<Longrightarrow> j < length sh \<Longrightarrow> cellValue sh j 0 \<noteq> Str tid" by blast
  then have "recordEmailOpen_loop h now tid (getValues sh) 1 sh = sh" by (rule sheet_no_match)
  with assms have "recordEmailOpen h now tid w = w" by (simp add: recordEmailOpen_def)
  then show thesis using nm by (rule unchanged)
next
  case True
  then obtain k where k: "1 \<le> k" "k < length sh" "cellValue sh k 0 = Str tid"
    "\<And>j. 1 \<le> j \<Longrightarrow> j < k \<Longrightarrow> cellValue sh j 0 \<noteq> Str tid"
    using first_row_with_token [of sh tid] by blast
  note eq = sheet_first_match [OF k, of h now]
  show thesis
  proof (cases "cellValue sh k 5 = Str ''No''")
    case True
    with eq assms show thesis by (intro first_open [OF k]) (simp_all add: recordEmailOpen_def)
  next
    case False
    with eq assms show thesis by (intro view [OF k]) (simp_all add: recordEmailOpen_def)
  qed
qed

lemma recordEmailOpen_no_sheet:
  "trackingSheet w = None \<Longrightarrow> recordEmailOpen h now tid w = w"
  by (simp add: recordEmailOpen_def)

lemma recordEmailOpen_frame:
  assumes "trackingSheet w = Some sh"
  shows "\<exists>sh'. recordEmailOpen h now tid w = w\<lparr>trackingSheet := Some sh'\<rparr> \<and> length sh' = length sh \<and>
     (\<forall>i j. cellValue sh' i j \<noteq> cellValue sh i j \<longrightarrow>
        (j = 4 \<or> j = 5 \<or> j = 6) \<and> 1 \<le> i \<and> i < length sh \<and> cellValue sh i 0 = Str tid \<and>
        (\<forall>i'. 1 \<le> i' \<and> i' < i \<longrightarrow> cellValue sh i' 0 \<noteq> Str tid))"
  using assms
proof (cases rule: recordEmailOpen_cases [of w sh h now tid])
  case unchanged
  with assms have "recordEmailOpen h now tid w = w\<lparr>trackingSheet := Some sh\<rparr>" by simp
  then show ?thesis by blast
next
  case (first_open k)
  let ?sh' = "setValue (k + 1) 6 (Str ''Yes'') (setValue (k + 1) 5 (Date now) sh)"
  have "length ?sh' = length sh" using first_open(2) by (simp add: length_setValue)
  moreover have "\<forall>i j. cellValue ?sh' i j \<noteq> cellValue sh i j \<longrightarrow>
        (j = 4 \<or> j = 5 \<or> j = 6) \<and> 1 \<le> i \<and> i < length sh \<and> cellValue sh i 0 = Str tid \<and>
        (\<forall>i'. 1 \<le> i' \<and> i' < i \<longrightarrow> cellValue sh i' 0 \<noteq> Str tid)"
    using first_open(1-4) by (auto simp: cellValue_setValue split: if_splits)
  ultimately show ?thesis using first_open(6) by blast
next
  case (view k)
  let ?sh' = "setValue (k + 1) 7 (jsPlus h (jsOr (Some (cellValue sh k 6)) (Num 0)) (Num 1)) sh"
  have "length ?sh' = length sh" using view(2) by (simp add: length_setValue)
  moreover have "\<forall>i j. cellValue ?sh' i j \<noteq> cellValue sh i j \<longrightarrow>
        (j = 4 \<or> j = 5 \<or> j = 6) \<and> 1 \<le> i \<and> i < length sh \<and> cellValue sh i 0 = Str tid \<and>
        (\<forall>i'. 1 \<le> i' \<and> i' < i \<longrightarrow> cellValue sh i' 0 \<noteq> Str tid)"
    using view(1-4) by (auto simp: cellValue_setValue split: if_splits)
  ultimately show ?thesis using view(6) by blast
qed

text \<open>
  C10. Whatever the request, \<open>doGet\<close> neither creates nor removes the tracking sheet, keeps
  its number of rows and sends no mail. A cell whose content differs afterwards is the Open
  Date, Opened or Views cell (columns 4, 5, 6 counted from 0) of the first data row whose token
  is the request's \<open>id\<close>; every other cell of that row and every cell of every other row is
  as before.
\<close>

theorem doGet_frame:
  "outbox (snd (doGet h now e w)) = outbox w \<and>
   (trackingSheet w = None \<longrightarrow> trackingSheet (snd (doGet h now e w)) = None) \<and>
   (\<forall>sh. trackingSheet w = Some sh \<longrightarrow>
      (\<exists>sh'. trackingSheet (snd (doGet h now e w)) = Some sh' \<and> length sh' = length sh \<and>
         (\<forall>i j. cellValue sh' i j \<noteq> cellValue sh i j \<longrightarrow>
            (j = 4 \<or> j = 5 \<or> j = 6) \<and> 1 \<le> i \<and> i < length sh \<and>
            (\<exists>ev tid. e = Some ev \<and> parameter ev ''id'' = Some tid \<and>
               cellValue sh i 0 = Str tid \<and>
               (\<forall>i'. 1 \<le> i' \<and> i' < i \<longrightarrow> cellValue sh i' 0 \<noteq> Str tid)))))"
proof (cases "\<exists>ev tid. e = Some ev \<and> parameter ev ''id'' = Some tid \<and>
    parameter ev ''action'' = Some ''open'' \<and> tid \<noteq> []")
  case False
  then have "snd (doGet h now e w) = w"
    by (auto simp: doGet_snd split: option.splits)
  then show ?thesis by simp
next
  case True
  then obtain ev tid where e: "e = Some ev" "parameter ev ''id'' = Some tid"
    "parameter ev ''action'' = Some ''open''" "tid \<noteq> []" by blast
  then have eq: "snd (doGet h now e w) = recordEmailOpen h now tid w"
    by (simp add: doGet_snd)
  show ?thesis
  proof (cases "trackingSheet w")
    case None
    then show ?thesis by (simp add: eq recordEmailOpen_no_sheet)
  next
    case (Some sh)
    from recordEmailOpen_frame [OF Some, of h now tid] obtain sh' where
      sh': "recordEmailOpen h now tid w = w\<lparr>trackingSheet := Some sh'\<rparr>" "length sh' = length sh"
      "\<forall>i j. cellValue sh' i j \<noteq> cellValue sh i j \<longrightarrow>
        (j = 4 \<or> j = 5 \<or> j = 6) \<and> 1 \<le> i \<and> i < length sh \<and> cellValue sh i 0 = Str tid \<and>
        (\<forall>i'. 1 \<le> i' \<and> i' < i \<longrightarrow> cellValue sh i' 0 \<noteq> Str tid)" by blast
    have "outbox (snd (doGet h now e w)) = outbox w" by (simp add: eq sh'(1))
    moreover have "trackingSheet (snd (doGet h now e w)) = Some sh'" by (simp add: eq sh'(1))
    ultimately show ?thesis using Some sh'(2,3) e(1,2) by auto
  qed
qed

section \<open>Sequences of requests\<close>

lemma jsPlus_views: "jsPlus h (jsOr (Some (Num n)) (Num 0)) (Num 1) = Num (n + 1)"
  by (simp add: jsPlus_def jsOr_def)

lemma open_hit:
  assumes "trackingSheet w = Some sh" "1 \<le> k" "k < length sh"
    and "cellValue sh k 0 = Str tok" "tok \<noteq> []"
    and "\<forall>j. 1 \<le> j \<and> j < k \<longrightarrow> cellValue sh j 0 \<noteq> Str tok"
    and "openRequest tok e"
  shows "snd (doGet h now e w) =
     w\<lparr>trackingSheet := Some
         (if cellValue sh k 5 = Str ''No'' then
            setValue (k + 1) 6 (Str ''Yes'') (setValue (k + 1) 5 (Date now) sh)
          else setValue (k + 1) 7 (jsPlus h (jsOr (Some (cellValue sh k 6)) (Num 0)) (Num 1)) sh)\<rparr>"
proof -
  from assms(7) obtain ev where e: "e = Some ev" "parameter ev ''id'' = Some tok"
    "parameter ev ''action'' = Some ''open''"
    by (auto simp: openRequest_def split: option.splits)
  with assms(5) have "snd (doGet h now e w) = recordEmailOpen h now tok w"
    by (simp add: doGet_snd)
  moreover have "recordEmailOpen_loop h now tok (getValues sh) 1 sh =
     (if cellValue sh k 5 = Str ''No'' then
        setValue (k + 1) 6 (Str ''Yes'') (setValue (k + 1) 5 (Date now) sh)
      else setValue (k + 1) 7 (jsPlus h (jsOr (Some (cellValue sh k 6)) (Num 0)) (Num 1)) sh)"
    using assms(2,3,4,6) by (intro sheet_first_match) auto
  ultimately show ?thesis using assms(1) by (simp add: recordEmailOpen_def)
qed

lemma first_open_hit:
  assumes "trackingSheet w = Some sh" "1 \<le> k" "k < length sh"
    and "cellValue sh k 0 = Str tok" "tok \<noteq> []"
    and "\<forall>j. 1 \<le> j \<and> j < k \<longrightarrow> cellValue sh j 0 \<noteq> Str tok"
    and "openRequest tok e"
    and "cellValue sh k 5 = Str ''No''"
  shows "\<exists>sh'. trackingSheet (snd (doGet h now e w)) = Some sh' \<and> length sh' = length sh \<and>
           (\<forall>i. cellValue sh' i 0 = cellValue sh i 0) \<and>
           cellValue sh' k 4 = Date now \<and> cellValue sh' k 5 = Str ''Yes'' \<and>
           cellValue sh' k 6 = cellValue sh k 6"
  using assms(3,8) by (simp add: open_hit [OF assms(1-7)] cellValue_setValue length_setValue)

lemma later_open_hit:
  assumes "trackingSheet w = Some sh" "1 \<le> k" "k < length sh"
    and "cellValue sh k 0 = Str tok" "tok \<noteq> []"
    and "\<forall>j. 1 \<le> j \<and> j < k \<longrightarrow> cellValue sh j 0 \<noteq> Str tok"
    and "openRequest tok e"
    and "cellValue sh k 5 = Str ''Yes''" "cellValue sh k 6 = Num n"
  shows "\<exists>sh'. trackingSheet (snd (doGet h now e w)) = Some sh' \<and> length sh' = length sh \<and>
           (\<forall>i. cellValue sh' i 0 = cellValue sh i 0) \<and>
           cellValue sh' k 5 = Str ''Yes'' \<and> cellValue sh' k 6 = Num (n + 1)"
  using assms(3,8,9)
  by (simp add: open_hit [OF assms(1-7)] cellValue_setValue length_setValue jsPlus_views)

lemma later_open_hits:
  assumes "list_all (\<lambda>(now, e). openRequest tok e) reqs"
    and "trackingSheet w = Some sh" "1 \<le> k" "k < length sh"
    and "cellValue sh k 0 = Str tok" "tok \<noteq> []"
    and "\<forall>j. 1 \<le> j \<and> j < k \<longrightarrow> cellValue sh j 0 \<noteq> Str tok"
    and "cellValue sh k 5 = Str ''Yes''" "cellValue sh k 6 = Num n"
  shows "\<exists>sh'. trackingSheet (serveAll h reqs w) = Some sh' \<and> length sh' = length sh \<and>
           (\<forall>i. cellValue sh' i 0 = cellValue sh i 0) \<and>
           cellValue sh' k 5 = Str ''Yes'' \<and> cellValue sh' k 6 = Num (n + int (length reqs))"
  using assms
proof (induction reqs arbitrary: w sh n)
  case Nil
  then show ?case by simp
next
  case (Cons r reqs)
  obtain now e where r: "r = (now, e)" by (cases r)
  with Cons.prems(1) have hit: "openRequest tok e"
    and rest: "list_all (\<lambda>(now, e). openRequest tok e) reqs" by simp_all
  from later_open_hit [OF Cons.prems(2-7) hit Cons.prems(8,9), of h now]
  obtain sh1 where sh1: "trackingSheet (snd (doGet h now e w)) = Some sh1"
    "length sh1 = length sh" "\<forall>i. cellValue sh1 i 0 = cellValue sh i 0"
    "cellValue sh1 k 5 = Str ''Yes''" "cellValue sh1 k 6 = Num (n + 1)" by blast
  have "\<exists>sh'. trackingSheet (serveAll h reqs (snd (doGet h now e w))) = Some sh' \<and>
           length sh' = length sh1 \<and> (\<forall>i. cellValue sh' i 0 = cellValue sh1 i 0) \<and>
           cellValue sh' k 5 = Str ''Yes'' \<and> cellValue sh' k 6 = Num (n + 1 + int (length reqs))"
    using rest sh1 Cons.prems(3-7) by (intro Cons.IH) simp_all
  then show ?case using sh1(2,3) by (auto simp: r)
qed

text \<open>
  C1. Take a record of the store (data row \<open>k\<close>, the first row holding its token, which is
  not empty) with Opened \<open>No\<close> and Views \<open>0\<close>, and serve \<open>N \<ge> 1\<close> open-recorder hits for
  its token one after another. After the first hit the record has Opened \<open>Yes\<close> and Views
  still \<open>0\<close>; after the \<open>N\<close>th it has Opened \<open>Yes\<close> and Views \<open>N - 1\<close>. In a store
  whose tokens are unique every record is the first row holding its token.
\<close>

theorem open_hits_count:
  assumes "trackingSheet w = Some sh"
    and "1 \<le> k" "k < length sh"
    and "cellValue sh k 0 = Str tok" "tok \<noteq> []"
    and "\<forall>j. 1 \<le> j \<and> j < k \<longrightarrow> cellValue sh j 0 \<noteq> Str tok"
    and "cellValue sh k 5 = Str ''No''" "cellValue sh k 6 = Num 0"
    and "reqs \<noteq> []" "list_all (\<lambda>(now, e). openRequest tok e) reqs"
  shows "\<exists>sh1 shN.
           trackingSheet (serveAll h (take 1 reqs) w) = Some sh1 \<and>
           cellValue sh1 k 0 = Str tok \<and> cellValue sh1 k 5 = Str ''Yes'' \<and>
           cellValue sh1 k 6 = Num 0 \<and>
           trackingSheet (serveAll h reqs w) = Some shN \<and>
           cellValue shN k 0 = Str tok \<and> cellValue shN k 5 = Str ''Yes'' \<and>
           cellValue shN k 6 = Num (int (length reqs) - 1)"
proof -
  from assms(9) obtain now e rest where reqs: "reqs = (now, e) # rest" by (cases reqs) auto
  with assms(10) have hit: "openRequest tok e"
    and rest: "list_all (\<lambda>(now, e). openRequest tok e) rest" by simp_all
  from first_open_hit [OF assms(1-6) hit assms(7), of h now] assms(8)
  obtain sh1 where sh1: "trackingSheet (snd (doGet h now e w)) = Some sh1"
    "length sh1 = length sh" "\<forall>i. cellValue sh1 i 0 = cellValue sh i 0"
    "cellValue sh1 k 5 = Str ''Yes''" "cellValue sh1 k 6 = Num 0" by auto
  have "\<exists>sh'. trackingSheet (serveAll h rest (snd (doGet h now e w))) = Some sh' \<and>
           length sh' = length sh1 \<and> (\<forall>i. cellValue sh' i 0 = cellValue sh1 i 0) \<and>
           cellValue sh' k 5 = Str ''Yes'' \<and> cellValue sh' k 6 = Num (0 + int (length rest))"
    using rest sh1 assms(2-6) by (intro later_open_hits) simp_all
  then obtain shN where "trackingSheet (serveAll h rest (snd (doGet h now e w))) = Some shN"
    "\<forall>i. cellValue shN i 0 = cellValue sh1 i 0"
    "cellValue shN k 5 = Str ''Yes''" "cellValue shN k 6 = Num (int (length rest))" by auto
  with sh1 assms(4) show ?thesis by (simp add: reqs)
qed

lemma demo_rows: "j < length demoSheet \<longleftrightarrow> j = 0 \<or> j = 1 \<or> j = 2"
  by (auto simp: demoSheet_def)

lemma demo_cells:
  "cellValue demoSheet 1 0 = Str ''tok-1''" "cellValue demoSheet 2 0 = Str ''tok-2''"
  "cellValue demoSheet 1 5 = Str ''No''" "cellValue demoSheet 1 6 = Num 0"
  "cellValue demoSheet 2 5 = Str ''Yes''" "cellValue demoSheet 2 6 = Num 3"
  "cellValue demoSheet (Suc 0) 0 = Str ''tok-1''"
  "cellValue demoSheet (Suc 0) 5 = Str ''No''" "cellValue demoSheet (Suc 0) 6 = Num 0"
  by (simp_all add: cellValue_def demoSheet_def)

theorem doGet_ignores_bad_request_witness:
  "doGet demoHost 5000 (Some (openEvent ''tok-9'')) demoWorld = (TextOutput PIXEL_GIF IMAGE, demoWorld)"
proof (rule doGet_ignores_bad_request)
  have "\<forall>j. 1 \<le> j \<and> j < length demoSheet \<longrightarrow> cellValue demoSheet j 0 \<noteq> Str ''tok-9''"
    by (auto simp: demo_rows demo_cells)
  then show "parameter (openEvent ''tok-9'') ''action'' = None \<or>
    parameter (openEvent ''tok-9'') ''action'' \<noteq> Some ''open'' \<or>
    parameter (openEvent ''tok-9'') ''id'' = None \<or>
    (\<exists>tid. parameter (openEvent ''tok-9'') ''id'' = Some tid \<and>
           (\<forall>sh. trackingSheet demoWorld = Some sh \<longrightarrow>
                 (\<forall>j. 1 \<le> j \<and> j < length sh \<longrightarrow> cellValue sh j 0 \<noteq> Str tid)))"
    by (simp add: openEvent_def demoWorld_def)
qed

theorem open_hits_count_witness:
  "\<exists>sh1 shN.
     trackingSheet (serveAll demoHost (take 1 [(5000, Some (openEvent ''tok-1'')),
        (6000, Some (openEvent ''tok-1'')), (7000, Some (openEvent ''tok-1''))]) demoWorld) = Some sh1 \<and>
     cellValue sh1 1 0 = Str ''tok-1'' \<and> cellValue sh1 1 5 = Str ''Yes'' \<and> cellValue sh1 1 6 = Num 0 \<and>
     trackingSheet (serveAll demoHost [(5000, Some (openEvent ''tok-1'')),
        (6000, Some (openEvent ''tok-1'')), (7000, Some (openEvent ''tok-1''))] demoWorld) = Some shN \<and>
     cellValue shN 1 0 = Str ''tok-1'' \<and> cellValue shN 1 5 = Str ''Yes'' \<and> cellValue shN 1 6 = Num 2"
  using open_hits_count [of demoWorld demoSheet 1 "''tok-1''"
      "[(5000, Some (openEvent ''tok-1'')), (6000, Some (openEvent ''tok-1'')),
        (7000, Some (openEvent ''tok-1''))]" demoHost]
  by (simp add: demo_cells demo_rows demoWorld_def openRequest_def openEvent_def)

theorem doGet_frame_witness:
  "outbox (snd (doGet demoHost 5000 (Some (openEvent ''tok-1'')) demoWorld)) = [] \<and>
   (\<exists>sh'. trackingSheet (snd (doGet demoHost 5000 (Some (openEvent ''tok-1'')) demoWorld)) = Some sh' \<and>
      length sh' = 3 \<and> cellValue sh' 1 0 = Str ''tok-1'' \<and> cellValue sh' 2 5 = Str ''Yes'' \<and>
      cellValue sh' 2 6 = Num 3)"
proof -
  let ?w = "snd (doGet demoHost 5000 (Some (openEvent ''tok-1'')) demoWorld)"
  from doGet_frame [of demoHost 5000 "Some (openEvent ''tok-1'')" demoWorld]
  obtain sh' where out: "outbox ?w = outbox demoWorld"
    and sh': "trackingSheet ?w = Some sh'" "length sh' = length demoSheet"
    and frame: "\<And>i j. cellValue sh' i j \<noteq> cellValue demoSheet i j \<Longrightarrow>
            (j = 4 \<or> j = 5 \<or> j = 6) \<and> 1 \<le> i \<and> i < length demoSheet \<and>
            (\<exists>ev tid. Some (openEvent ''tok-1'') = Some ev \<and> parameter ev ''id'' = Some tid \<and>
               cellValue demoSheet i 0 = Str tid \<and>
               (\<forall>i'. 1 \<le> i' \<and> i' < i \<longrightarrow> cellValue demoSheet i' 0 \<noteq> Str tid))"
    by (auto simp: demoWorld_def)
  have "cellValue sh' 1 0 = cellValue demoSheet 1 0" using frame [of 1 0] by auto
  moreover have "cellValue sh' 2 5 = cellValue demoSheet 2 5"
    using frame [of 2 5] by (auto simp: demo_cells openEvent_def)
  moreover have "cellValue sh' 2 6 = cellValue demoSheet 2 6"
    using frame [of 2 6] by (auto simp: demo_cells openEvent_def)
  moreover have "length demoSheet = 3" by (simp add: demoSheet_def)
  ultimately show ?thesis using out sh' by (simp add: demo_cells demoWorld_def)
qed

section \<open>Monotonicity of a record\<close>

lemma recordEmailOpen_step:
  assumes "trackingSheet w = Some sh"
    and "cellValue sh k 5 = Str ''No'' \<or> cellValue sh k 5 = Str ''Yes''"
    and "cellValue sh k 6 = Num v"
  shows "\<exists>sh' v'. trackingSheet (recordEmailOpen h now tid w) = Some sh' \<and>
           (cellValue sh' k 5 = Str ''No'' \<or> cellValue sh' k 5 = Str ''Yes'') \<and>
           (cellValue sh k 5 = Str ''Yes'' \<longrightarrow> cellValue sh' k 5 = Str ''Yes'') \<and>
           cellValue sh' k 6 = Num v' \<and> v \<le> v' \<and>
           (v' \<noteq> v \<longrightarrow> cellValue sh k 5 = Str ''Yes'' \<and> v' = v + 1)"
  using assms(1)
proof (cases rule: recordEmailOpen_cases [of w sh h now tid])
  case unchanged
  with assms show ?thesis by auto
next
  case (first_open m)
  with assms show ?thesis by (auto simp: cellValue_setValue)
next
  case (view m)
  show ?thesis
  proof (cases "m = k")
    case True
    with view(5) assms(2) have "cellValue sh k 5 = Str ''Yes''" by auto
    with True assms(3) view(6) show ?thesis
      by (simp add: cellValue_setValue jsPlus_views)
  next
    case False
    with assms view(6) show ?thesis by (auto simp: cellValue_setValue)
  qed
qed

lemma doGet_step:
  assumes "trackingSheet w = Some sh"
    and "cellValue sh k 5 = Str ''No'' \<or> cellValue sh k 5 = Str ''Yes''"
    and "cellValue sh k 6 = Num v"
  shows "\<exists>sh' v'. trackingSheet (snd (doGet h now e w)) = Some sh' \<and>
           (cellValue sh' k 5 = Str ''No'' \<or> cellValue sh' k 5 = Str ''Yes'') \<and>
           (cellValue sh k 5 = Str ''Yes'' \<longrightarrow> cellValue sh' k 5 = Str ''Yes'') \<and>
           cellValue sh' k 6 = Num v' \<and> v \<le> v' \<and>
           (v' \<noteq> v \<longrightarrow> cellValue sh k 5 = Str ''Yes'' \<and> v' = v + 1)"
proof (cases "\<exists>tid. snd (doGet h now e w) = recordEmailOpen h now tid w")
  case True
  then obtain tid where "snd (doGet h now e w) = recordEmailOpen h now tid w" by blast
  with recordEmailOpen_step [OF assms, of h now tid] show ?thesis by simp
next
  case False
  then have "snd (doGet h now e w) = w"
    by (auto simp: doGet_snd split: option.splits if_splits)
  with assms show ?thesis by auto
qed

lemma serveAll_steps:
  assumes "trackingSheet w = Some sh"
    and "cellValue sh k 5 = Str ''No'' \<or> cellValue sh k 5 = Str ''Yes''"
    and "cellValue sh k 6 = Num v"
  shows "\<exists>sh' v'. trackingSheet (serveAll h reqs w) = Some sh' \<and>
           (cellValue sh' k 5 = Str ''No'' \<or> cellValue sh' k 5 = Str ''Yes'') \<and>
           (cellValue sh k 5 = Str ''Yes'' \<longrightarrow> cellValue sh' k 5 = Str ''Yes'') \<and>
           cellValue sh' k 6 = Num v' \<and> v \<le> v'"
  using assms
proof (induction reqs arbitrary: w sh v)
  case Nil
  then show ?case by auto
next
  case (Cons r reqs)
  obtain now e where r: "r = (now, e)" by (cases r)
  from doGet_step [OF Cons.prems, of h now e]
  obtain sh1 v1 where s1: "trackingSheet (snd (doGet h now e w)) = Some sh1"
    "cellValue sh1 k 5 = Str ''No'' \<or> cellValue sh1 k 5 = Str ''Yes''"
    "cellValue sh k 5 = Str ''Yes'' \<longrightarrow> cellValue sh1 k 5 = Str ''Yes''"
    "cellValue sh1 k 6 = Num v1" "v \<le> v1" by blast
  from Cons.IH [OF s1(1,2,4), of ]
  obtain sh' v' where "trackingSheet (serveAll h reqs (snd (doGet h now e w))) = Some sh'"
    "cellValue sh' k 5 = Str ''No'' \<or> cellValue sh' k 5 = Str ''Yes''"
    "cellValue sh1 k 5 = Str ''Yes'' \<longrightarrow> cellValue sh' k 5 = Str ''Yes''"
    "cellValue sh' k 6 = Num v'" "v1 \<le> v'" by blast
  with s1(3,5) show ?case by (auto simp: r)
qed

text \<open>
  C5. Take a record whose Opened cell is \<open>No\<close> or \<open>Yes\<close> and whose Views cell is a number,
  any sequence of requests served one after another, and one more request after them. At
  every point the Opened cell is still \<open>No\<close> or \<open>Yes\<close>; once \<open>Yes\<close> it stays \<open>Yes\<close>, so
  the step from \<open>No\<close> to \<open>Yes\<close> is taken at most once. The Views cell stays a number that
  never decreases, and a request changes it only by adding 1 to a record it found with Opened
  \<open>Yes\<close>.
\<close>

theorem opened_and_views_monotonic:
  assumes "trackingSheet w = Some sh"
    and "cellValue sh k 5 = Str ''No'' \<or> cellValue sh k 5 = Str ''Yes''"
    and "cellValue sh k 6 = Num v"
  shows "\<exists>sh1 v1 sh2 v2.
           trackingSheet (serveAll h reqs w) = Some sh1 \<and>
           trackingSheet (snd (doGet h now e (serveAll h reqs w))) = Some sh2 \<and>
           (cellValue sh1 k 5 = Str ''No'' \<or> cellValue sh1 k 5 = Str ''Yes'') \<and>
           (cellValue sh2 k 5 = Str ''No'' \<or> cellValue sh2 k 5 = Str ''Yes'') \<and>
           (cellValue sh k 5 = Str ''Yes'' \<longrightarrow> cellValue sh1 k 5 = Str ''Yes'') \<and>
           (cellValue sh1 k 5 = Str ''Yes'' \<longrightarrow> cellValue sh2 k 5 = Str ''Yes'') \<and>
           cellValue sh1 k 6 = Num v1 \<and> cellValue sh2 k 6 = Num v2 \<and>
           v \<le> v1 \<and> v1 \<le> v2 \<and>
           (v2 \<noteq> v1 \<longrightarrow> cellValue sh1 k 5 = Str ''Yes'' \<and> v2 = v1 + 1)"
proof -
  from serveAll_steps [OF assms, of h reqs]
  obtain sh1 v1 where s1: "trackingSheet (serveAll h reqs w) = Some sh1"
    "cellValue sh1 k 5 = Str ''No'' \<or> cellValue sh1 k 5 = Str ''Yes''"
    "cellValue sh k 5 = Str ''Yes'' \<longrightarrow> cellValue sh1 k 5 = Str ''Yes''"
    "cellValue sh1 k 6 = Num v1" "v \<le> v1" by blast
  from doGet_step [OF s1(1,2,4), of h now e]
  obtain sh2 v2 where "trackingSheet (snd (doGet h now e (serveAll h reqs w))) = Some sh2"
    "cellValue sh2 k 5 = Str ''No'' \<or> cellValue sh2 k 5 = Str ''Yes''"
    "cellValue sh1 k 5 = Str ''Yes'' \<longrightarrow> cellValue sh2 k 5 = Str ''Yes''"
    "cellValue sh2 k 6 = Num v2" "v1 \<le> v2"
    "v2 \<noteq> v1 \<longrightarrow> cellValue sh1 k 5 = Str ''Yes'' \<and> v2 = v1 + 1" by blast
  with s1 show ?thesis by blast
qed

theorem opened_and_views_monotonic_witness:
  "\<exists>sh1 v1 sh2 v2.
     trackingSheet (serveAll demoHost [(5000, Some (openEvent ''tok-2'')), (6000, Some (openEvent ''tok-1''))]
       demoWorld) = Some sh1 \<and>
     trackingSheet (snd (doGet demoHost 7000 (Some (openEvent ''tok-2''))
       (serveAll demoHost [(5000, Some (openEvent ''tok-2'')), (6000, Some (openEvent ''tok-1''))]
          demoWorld))) = Some sh2 \<and>
     cellValue sh1 2 5 = Str ''Yes'' \<and> cellValue sh2 2 5 = Str ''Yes'' \<and>
     cellValue sh1 2 6 = Num v1 \<and> cellValue sh2 2 6 = Num v2 \<and> 3 \<le> v1 \<and> v1 \<le> v2"
  using opened_and_views_monotonic [of demoWorld demoSheet 2 3 demoHost
      "[(5000, Some (openEvent ''tok-2'')), (6000, Some (openEvent ''tok-1''))]"
      7000 "Some (openEvent ''tok-2'')"]
  by (simp add: demo_cells demoWorld_def) blast

section \<open>Statistics\<close>

lemma yes_cell_getValues:
  assumes "k < length sh"
  shows "cellAt (getValues sh ! k) 5 = Some (Str ''Yes'') \<longleftrightarrow> cellValue sh k 5 = Str ''Yes''"
proof -
  have "cellValue sh k 5 = Str ''Yes'' \<Longrightarrow> 5 < width sh"
    using length_le_width [OF assms] by (auto simp: cellValue_def split: if_splits)
  with assms show ?thesis by (auto simp: cellAt_getValues)
qed

lemma views_or_one_getValues:
  assumes "k < length sh"
  shows "jsOr (cellAt (getValues sh ! k) 6) (Num 1) = jsOr (Some (cellValue sh k 6)) (Num 1)"
proof (cases "6 < width sh")
  case True
  with assms show ?thesis by (simp add: cellAt_getValues)
next
  case False
  with length_le_width [OF assms] have "cellValue sh k 6 = Str []"
    by (auto simp: cellValue_def)
  with False assms show ?thesis by (simp add: cellAt_getValues jsOr_def)
qed

lemma jsNumber_views:
  "0 \<le> n \<Longrightarrow> jsNumber h (jsOr (Some (Num n)) (Num 1)) = Fin (max n 1)"
  by (simp add: jsOr_def)

lemma stats_loop_opened:
  assumes "sh \<noteq> []"
  shows "openedEmails_c (getEmailStats_loop h wk (getValues sh) i c) =
     openedEmails_c c + length (filter (\<lambda>j. cellValue sh j 5 = Str ''Yes'') [i..<length sh])"
proof (induction h wk "getValues sh" i c rule: getEmailStats_loop.induct)
  case (1 h wk i c)
  show ?case
  proof (cases "i < length sh")
    case True
    then have up: "[i..<length sh] = i # [i + 1..<length sh]" by (simp add: upt_conv_Cons)
    from True assms have lt: "i < length (getValues sh)" by (simp add: length_getValues)
    show ?thesis
      apply (subst getEmailStats_loop.simps)
      apply (simp only: lt if_True Let_def)
      apply (subst "1.hyps" [OF lt refl refl refl])
      apply (simp add: up yes_cell_getValues [OF True])
      done
  next
    case False
    with assms have "\<not> i < length (getValues sh)" by (simp add: length_getValues)
    with False show ?thesis by (subst getEmailStats_loop.simps) simp
  qed
qed

lemma stats_loop_views:
  assumes "sh \<noteq> []"
    and "\<forall>j. i \<le> j \<and> j < length sh \<and> cellValue sh j 5 = Str ''Yes'' \<longrightarrow>
           (\<exists>n\<ge>0. cellValue sh j 6 = Num n)"
    and "totalViews_c c = Fin t"
  shows "totalViews_c (getEmailStats_loop h wk (getValues sh) i c) =
     Fin (t + (\<Sum>j\<leftarrow>[i..<length sh].
            if cellValue sh j 5 = Str ''Yes'' then max (toInt (cellValue sh j 6)) 1 else 0))"
  using assms(2,3)
proof (induction h wk "getValues sh" i c arbitrary: t rule: getEmailStats_loop.induct)
  case (1 h wk i c)
  show ?case
  proof (cases "i < length sh")
    case True
    then have up: "[i..<length sh] = i # [i + 1..<length sh]" by (simp add: upt_conv_Cons)
    from True assms(1) have lt: "i < length (getValues sh)" by (simp add: length_getValues)
    have rest: "\<forall>j. i + 1 \<le> j \<and> j < length sh \<and> cellValue sh j 5 = Str ''Yes'' \<longrightarrow>
           (\<exists>n\<ge>0. cellValue sh j 6 = Num n)" using "1.prems"(1) by auto
    show ?thesis
    proof (cases "cellValue sh i 5 = Str ''Yes''")
      case yes: True
      with "1.prems"(1) True obtain n where n: "0 \<le> n" "cellValue sh i 6 = Num n" by auto
      show ?thesis
        apply (subst getEmailStats_loop.simps)
        apply (simp only: lt if_True Let_def)
        apply (subst "1.hyps" [OF lt refl refl refl rest, of "t + max n 1"])
         apply (simp add: yes yes_cell_getValues [OF True] views_or_one_getValues [OF True] n
            jsNumber_views "1.prems"(2))
        apply (simp add: up yes n)
        done
    next
      case no: False
      show ?thesis
        apply (subst getEmailStats_loop.simps)
        apply (simp only: lt if_True Let_def)
        apply (subst "1.hyps" [OF lt refl refl refl rest, of t])
         apply (simp add: no yes_cell_getValues [OF True] "1.prems"(2))
        apply (simp add: up no)
        done
    qed
  next
    case False
    with assms(1) have "\<not> i < length (getValues sh)" by (simp add: length_getValues)
    with False "1.prems"(2) show ?thesis by (subst getEmailStats_loop.simps) simp
  qed
qed

lemma getEmailStats_Statistics:
  assumes "trackingSheet w = Some sh" "1 < length sh"
  shows "getEmailStats h today w =
     (let c = getEmailStats_loop h (weekBefore h today) (getValues sh) 1
                \<lparr>openedEmails_c = 0, totalViews_c = Fin 0, lastWeekEmails_c = 0, lastWeekOpened_c = 0\<rparr>
      in Statistics
           \<lparr>totalEmails = length sh - 1,
            openedEmails = openedEmails_c c,
            openRate = rate (openedEmails_c c) (length sh - 1) @ ''%'',
            totalViews = totalViews_c c,
            averageViews = avgViews (totalViews_c c) (openedEmails_c c),
            lastWeekEmails = lastWeekEmails_c c,
            lastWeekOpened = lastWeekOpened_c c,
            lastWeekOpenRate = rate (lastWeekOpened_c c) (lastWeekEmails_c c) @ ''%''\<rparr>)"
proof -
  from assms(2) have "sh \<noteq> []" by auto
  then have "length (getValues sh) = length sh" by (rule length_getValues)
  with assms show ?thesis by (simp add: getEmailStats_def Let_def)
qed

lemma getEmailStats_Failure:
  assumes "trackingSheet w = Some sh" "length sh \<le> 1"
  shows "getEmailStats h today w =
     Failure ''No tracking data available. Statistics will appear after emails are sent.''"
proof -
  have "length (getValues sh) \<le> 1" using assms(2) by (cases "sh = []") (simp_all add: getValues_def)
  with assms(1) show ?thesis by (simp add: getEmailStats_def Let_def)
qed

text \<open>
  C7. With no tracking sheet, or with a sheet that has no data row (empty, or the header
  only), \<open>getEmailStats\<close> returns its descriptive message and no statistics. Statistics are
  returned only for at least one record, and with a divisor 0 the rate and the average are
  the literal 0, not a quotient.
\<close>

theorem stats_no_data:
  "(trackingSheet w = None \<longrightarrow> getEmailStats h today w =
      Failure ''Tracking sheet not found. It will be created automatically after emails are sent.'') \<and>
   (\<forall>sh. trackingSheet w = Some sh \<and> length sh \<le> 1 \<longrightarrow> getEmailStats h today w =
      Failure ''No tracking data available. Statistics will appear after emails are sent.'') \<and>
   (\<forall>s. getEmailStats h today w = Statistics s \<longrightarrow> 0 < totalEmails s) \<and>
   rate a 0 = ''0'' \<and> avgViews tv 0 = Num 0"
proof -
  have "trackingSheet w = None \<longrightarrow> getEmailStats h today w =
      Failure ''Tracking sheet not found. It will be created automatically after emails are sent.''"
    by (simp add: getEmailStats_def)
  moreover have "\<forall>sh. trackingSheet w = Some sh \<and> length sh \<le> 1 \<longrightarrow> getEmailStats h today w =
      Failure ''No tracking data available. Statistics will appear after emails are sent.''"
    using getEmailStats_Failure by blast
  moreover have "\<forall>s. getEmailStats h today w = Statistics s \<longrightarrow> 0 < totalEmails s"
    by (auto simp: getEmailStats_def Let_def split: option.splits if_splits)
  ultimately show ?thesis by (simp add: rate_def avgViews_def)
qed

lemma round_quotient:
  assumes "0 < b"
  shows "\<lfloor>(of_int a / of_int b :: rat) + 1 / 2\<rfloor> = (2 * a + b) div (2 * b)"
proof -
  have "(of_int a / of_int b :: rat) + 1 / 2 = of_int (2 * a + b) / of_int (2 * b)"
    using assms by (simp add: field_simps)
  then show ?thesis by (simp only: floor_divide_of_int_eq)
qed

lemma rate_eval: "0 < b \<Longrightarrow> rate a b = hundredths ((20000 * a + b) div (2 * b))"
proof -
  assume b: "0 < b"
  have "(of_nat a / of_nat b * 100 :: rat) = of_int (100 * int a) / of_int (int b)" by simp
  then have "\<lfloor>\<bar>of_nat a / of_nat b * 100 :: rat\<bar> * 100 + 1 / 2\<rfloor> = 
     \<lfloor>(of_int (100 * int a) / of_int (int b) :: rat) * 100 + 1 / 2\<rfloor>" by simp
  also have "\<dots> = \<lfloor>(of_int (10000 * int a) / of_int (int b) :: rat) + 1 / 2\<rfloor>" by simp
  also have "\<dots> = (2 * (10000 * int a) + int b) div (2 * int b)"
    using b by (intro round_quotient) simp
  finally have "nat \<lfloor>\<bar>of_nat a / of_nat b * 100 :: rat\<bar> * 100 + 1 / 2\<rfloor> = (20000 * a + b) div (2 * b)"
    by (simp add: nat_div_distrib nat_add_distrib nat_mult_distrib)
  moreover have "\<not> (of_nat a / of_nat b * 100 :: rat) < 0" by (simp add: not_less)
  ultimately show ?thesis using b unfolding rate_def toFixed2_def by (simp only: if_True if_False append_Nil)
qed

lemma avgViews_eval:
  assumes "0 < b" "0 \<le> t"
  shows "avgViews (Fin t) b = Str (hundredths (nat ((200 * t + int b) div (2 * int b))))"
proof -
  have nn: "(0::rat) \<le> of_int t / of_nat b" using assms by simp
  have a: "\<bar>of_int t / of_nat b :: rat\<bar> = of_int t / of_nat b" using nn by (rule abs_of_nonneg)
  have m: "(of_int t / of_nat b :: rat) * 100 = of_int (100 * t) / of_int (int b)"
    by (simp add: mult.commute)
  have "\<lfloor>\<bar>of_int t / of_nat b :: rat\<bar> * 100 + 1 / 2\<rfloor> =
     \<lfloor>(of_int (100 * t) / of_int (int b) :: rat) + 1 / 2\<rfloor>" by (simp only: a m)
  also have "\<dots> = (2 * (100 * t) + int b) div (2 * int b)"
    using assms(1) by (intro round_quotient) simp
  finally have "\<lfloor>\<bar>of_int t / of_nat b :: rat\<bar> * 100 + 1 / 2\<rfloor> = (200 * t + int b) div (2 * int b)"
    by simp
  moreover have "\<not> (of_int t / of_nat b :: rat) < 0" using nn by (simp only: not_less)
  ultimately show ?thesis using assms(1) unfolding avgViews_def toFixed2_def
    by (simp only: if_True if_False append_Nil jsnum.case)
qed

lemma rate_values: "rate 4 10 = ''40.00''" "rate 3 7 = ''42.86''"
  by (simp_all add: rate_eval hundredths_def showNat.simps digit_def)

lemma avgViews_values: "avgViews (Fin 6) 4 = Str ''1.50''"
  by (simp add: avgViews_eval hundredths_def showNat.simps digit_def)

lemma scenario_getValues: "getValues scenarioSheet = scenarioSheet"
  by (simp add: getValues_def scenarioSheet_def width_def padRow_def TRACKING_HEADER_def)

lemma stats_loop_step:
  "i < length data \<Longrightarrow>
   getEmailStats_loop h oneWeekAgo data i c =
     (let sendDate = newDate h (cellAt (data ! i) 3);
             c1 = (if cellAt (data ! i) 5 = Some (Str ''Yes'') then
                     c\<lparr>openedEmails_c := openedEmails_c c + 1,
                       totalViews_c :=
                         jsnumAdd (totalViews_c c) (jsNumber h (jsOr (cellAt (data ! i) 6) (Num 1)))\<rparr>
                   else c);
             c2 = (if (case sendDate of None \<Rightarrow> False | Some t \<Rightarrow> t > oneWeekAgo) then
                     (if cellAt (data ! i) 5 = Some (Str ''Yes'') then
                        c1\<lparr>lastWeekEmails_c := lastWeekEmails_c c1 + 1,
                           lastWeekOpened_c := lastWeekOpened_c c1 + 1\<rparr>
                      else c1\<lparr>lastWeekEmails_c := lastWeekEmails_c c1 + 1\<rparr>)
                   else c1)
         in getEmailStats_loop h oneWeekAgo data (i + 1) c2)"
  by (subst getEmailStats_loop.simps) simp

lemma stats_loop_done:
  "\<not> i < length data \<Longrightarrow> getEmailStats_loop h oneWeekAgo data i c = c"
  by (subst getEmailStats_loop.simps) simp

lemma scenario_loop:
  "getEmailStats_loop demoHost 395200000 scenarioSheet 1
      \<lparr>openedEmails_c = 0, totalViews_c = Fin 0, lastWeekEmails_c = 0, lastWeekOpened_c = 0\<rparr> =
   \<lparr>openedEmails_c = 4, totalViews_c = Fin 6, lastWeekEmails_c = 7, lastWeekOpened_c = 3\<rparr>"
  by (simp add: stats_loop_step stats_loop_done scenarioSheet_def cellAt_def jsOr_def Let_def)

lemma sum_opened:
  "(\<Sum>j\<leftarrow>[1..<length sh]. if cellValue sh j 5 = Str ''Yes'' then f j else (0::int)) =
   (\<Sum>j\<leftarrow>openedRows sh. f j)"
  by (simp add: openedRows_def sum_list_map_filter')

lemma stats_of_sheet:
  assumes "trackingSheet w = Some sh" "1 < length sh"
    and "\<forall>j\<in>set (openedRows sh). \<exists>n\<ge>0. cellValue sh j 6 = Num n"
  shows "\<exists>s. getEmailStats h today w = Statistics s \<and> totalEmails s = length sh - 1 \<and>
     openedEmails s = length (openedRows sh) \<and>
     totalViews s = Fin (\<Sum>j\<leftarrow>openedRows sh. max (toInt (cellValue sh j 6)) 1) \<and>
     openRate s = rate (length (openedRows sh)) (length sh - 1) @ ''%'' \<and>
     averageViews s = avgViews (Fin (\<Sum>j\<leftarrow>openedRows sh. max (toInt (cellValue sh j 6)) 1))
        (length (openedRows sh))"
proof -
  let ?c = "getEmailStats_loop h (weekBefore h today) (getValues sh) 1
      \<lparr>openedEmails_c = 0, totalViews_c = Fin 0, lastWeekEmails_c = 0, lastWeekOpened_c = 0\<rparr>"
  from assms(2) have ne: "sh \<noteq> []" by auto
  have typed: "\<forall>j. 1 \<le> j \<and> j < length sh \<and> cellValue sh j 5 = Str ''Yes'' \<longrightarrow>
           (\<exists>n\<ge>0. cellValue sh j 6 = Num n)"
    using assms(3) by (auto simp: openedRows_def)
  have o: "openedEmails_c ?c = length (openedRows sh)"
    by (simp add: stats_loop_opened [OF ne] openedRows_def)
  have "totalViews_c ?c = Fin (0 + (\<Sum>j\<leftarrow>[1..<length sh].
            if cellValue sh j 5 = Str ''Yes'' then max (toInt (cellValue sh j 6)) 1 else 0))"
    using ne typed by (intro stats_loop_views) simp_all
  then have v: "totalViews_c ?c = Fin (\<Sum>j\<leftarrow>openedRows sh. max (toInt (cellValue sh j 6)) 1)"
    by (simp only: sum_opened add_0)
  show ?thesis
    unfolding getEmailStats_Statistics [OF assms(1,2)] Let_def o v by simp
qed

text \<open>
  C6. For every store with at least one record, in which the Views cell of every opened
  record is a number \<open>n \<ge> 0\<close>, \<open>getEmailStats\<close> returns statistics, and their
  \<open>totalViews\<close> is the sum over the records with Opened \<open>Yes\<close> of \<open>max n 1\<close>; the other
  records add nothing.
\<close>

theorem totalViews_sum:
  assumes "trackingSheet w = Some sh"
    and "1 < length sh"
    and "\<forall>j\<in>set (openedRows sh). \<exists>n\<ge>0. cellValue sh j 6 = Num n"
  shows "\<exists>s. getEmailStats h today w = Statistics s \<and>
           totalViews s = Fin (\<Sum>j\<leftarrow>openedRows sh. max (toInt (cellValue sh j 6)) 1)"
proof -
  from stats_of_sheet [OF assms, of h today]
  obtain s where "getEmailStats h today w = Statistics s"
    "totalViews s = Fin (\<Sum>j\<leftarrow>openedRows sh. max (toInt (cellValue sh j 6)) 1)" by blast
  then show ?thesis by blast
qed

lemma sum_one_special:
  fixes g :: "nat \<Rightarrow> int"
  assumes "distinct xs" "p \<in> set xs" "\<forall>q\<in>set xs. q \<noteq> p \<longrightarrow> g q = c"
  shows "(\<Sum>j\<leftarrow>xs. g j) = g p + int (length xs - 1) * c"
proof -
  have "(\<Sum>j\<leftarrow>xs. g j) = g p + (\<Sum>j\<leftarrow>remove1 p xs. g j)"
    using assms(2) by (rule sum_list_map_remove1)
  moreover have "\<forall>q\<in>set (remove1 p xs). g q = c" using assms(1,3) by auto
  then have "map g (remove1 p xs) = replicate (length (remove1 p xs)) c"
    by (simp add: map_replicate_const [symmetric] cong: map_cong)
  then have "(\<Sum>j\<leftarrow>remove1 p xs. g j) = int (length (remove1 p xs)) * c"
    by (simp add: sum_list_replicate)
  moreover have "length (remove1 p xs) = length xs - 1" using assms(2) by (simp add: length_remove1)
  ultimately show ?thesis by simp
qed

text \<open>
  C2, as the program computes it. For a store of exactly ten records of which four are
  opened, one of these with Views 3 and the other three with Views 0, \<open>getEmailStats\<close>
  returns \<open>openedEmails = 4\<close>, \<open>totalViews = 6\<close> (3 + 1 + 1 + 1),
  \<open>averageViews = '1.50'\<close> and \<open>openRate = '40.00%'\<close>.
\<close>

theorem ten_records_four_opened:
  assumes "trackingSheet w = Some sh" "length sh = 11"
    and "length (openedRows sh) = 4"
    and "p \<in> set (openedRows sh)" "cellValue sh p 6 = Num 3"
    and "\<forall>q\<in>set (openedRows sh). q \<noteq> p \<longrightarrow> cellValue sh q 6 = Num 0"
  shows "\<exists>s. getEmailStats h today w = Statistics s \<and> totalEmails s = 10 \<and>
           openedEmails s = 4 \<and> totalViews s = Fin 6 \<and> averageViews s = Str ''1.50'' \<and>
           openRate s = ''40.00%''"
proof -
  have typed: "\<forall>j\<in>set (openedRows sh). \<exists>n\<ge>0. cellValue sh j 6 = Num n"
    using assms(5,6) by (metis order_refl zero_le_numeral)
  have "distinct (openedRows sh)" by (simp add: openedRows_def)
  moreover have "\<forall>q\<in>set (openedRows sh). q \<noteq> p \<longrightarrow> max (toInt (cellValue sh q 6)) 1 = 1"
    using assms(6) by simp
  ultimately have "(\<Sum>j\<leftarrow>openedRows sh. max (toInt (cellValue sh j 6)) 1) =
      max (toInt (cellValue sh p 6)) 1 + int (length (openedRows sh) - 1) * 1"
    using assms(4) by (intro sum_one_special) 
  then have total: "(\<Sum>j\<leftarrow>openedRows sh. max (toInt (cellValue sh j 6)) 1) = 6"
    by (simp add: assms(3,5))
  from stats_of_sheet [OF assms(1) _ typed, of h today] assms(2)
  obtain s where "getEmailStats h today w = Statistics s" "totalEmails s = length sh - 1"
     "openedEmails s = length (openedRows sh)"
     "totalViews s = Fin (\<Sum>j\<leftarrow>openedRows sh. max (toInt (cellValue sh j 6)) 1)"
     "openRate s = rate (length (openedRows sh)) (length sh - 1) @ ''%''"
     "averageViews s = avgViews (Fin (\<Sum>j\<leftarrow>openedRows sh. max (toInt (cellValue sh j 6)) 1))
        (length (openedRows sh))" by auto
  then show ?thesis by (simp add: total assms(2,3) rate_values avgViews_values)
qed

lemma scenario_getEmailStats:
  "getEmailStats demoHost 1000000000 scenarioWorld = Statistics scenarioStats"
proof -
  have len: "length scenarioSheet = 11" by (simp add: scenarioSheet_def)
  have wk: "weekBefore demoHost 1000000000 = 395200000" by (simp add: demoHost_def)
  show ?thesis
    by (simp add: getEmailStats_def scenarioWorld_def scenario_getValues len wk
        Let_def scenario_loop [simplified] rate_values avgViews_values scenarioStats_def)
qed

lemma scenario_sheet: "trackingSheet scenarioWorld = Some scenarioSheet"
  by (simp add: scenarioWorld_def)

lemma scenario_length: "length scenarioSheet = 11"
  by (simp add: scenarioSheet_def)

lemma scenario_opened: "openedRows scenarioSheet = [2, 5, 6, 9]"
  by (simp add: openedRows_def upt_conv_Cons cellValue_def scenarioSheet_def)

lemma scenario_views:
  "cellValue scenarioSheet 2 6 = Num 3" "cellValue scenarioSheet 5 6 = Num 0"
  "cellValue scenarioSheet 6 6 = Num 0" "cellValue scenarioSheet 9 6 = Num 0"
  by (simp_all add: cellValue_def scenarioSheet_def)

text \<open>
  C2 as the specification states it fails on such a store: \<open>totalViews\<close> is 6, not 7, and
  \<open>averageViews\<close> is \<open>'1.50'\<close>, not \<open>'1.75'\<close>.
\<close>

theorem scenario_statistics:
  "getEmailStats demoHost 1000000000 scenarioWorld = Statistics scenarioStats \<and>
   totalViews scenarioStats = Fin 6 \<and> totalViews scenarioStats \<noteq> Fin 7 \<and>
   averageViews scenarioStats = Str ''1.50'' \<and> averageViews scenarioStats \<noteq> Str ''1.75''"
  by (simp add: scenario_getEmailStats) (simp add: scenarioStats_def)

theorem totalViews_sum_witness:
  "\<exists>s. getEmailStats demoHost 1000000000 scenarioWorld = Statistics s \<and>
     totalViews s = Fin (max 3 1 + max 0 1 + max 0 1 + max 0 1)"
  using totalViews_sum [of scenarioWorld scenarioSheet demoHost 1000000000]
  by (simp add: scenario_opened scenario_views scenario_sheet scenario_length)

theorem ten_records_four_opened_witness:
  "\<exists>s. getEmailStats demoHost 1000000000 scenarioWorld = Statistics s \<and> totalEmails s = 10 \<and>
     openedEmails s = 4 \<and> totalViews s = Fin 6 \<and> averageViews s = Str ''1.50'' \<and>
     openRate s = ''40.00%''"
  using ten_records_four_opened [of scenarioWorld scenarioSheet 2 demoHost 1000000000]
  by (simp add: scenario_opened scenario_views scenario_sheet scenario_length)

theorem stats_no_data_witness:
  "getEmailStats demoHost 1000000000 \<lparr>trackingSheet = None, outbox = []\<rparr> =
     Failure ''Tracking sheet not found. It will be created automatically after emails are sent.'' \<and>
   getEmailStats demoHost 1000000000 \<lparr>trackingSheet = Some [TRACKING_HEADER], outbox = []\<rparr> =
     Failure ''No tracking data available. Statistics will appear after emails are sent.''"
  using stats_no_data [of "\<lparr>trackingSheet = None, outbox = []\<rparr>" demoHost 1000000000]
    stats_no_data [of "\<lparr>trackingSheet = Some [TRACKING_HEADER], outbox = []\<rparr>" demoHost 1000000000]
  by simp

section \<open>Token issue and sending\<close>

lemma generateTrackingPixel_eq:
  "generateTrackingPixel uuid now email sid w =
     (pixelMarkup uuid,
      w\<lparr>trackingSheet :=
          Some (sheetRows w @ [[Str uuid, email, sid, Date now, Str [], Str ''No'', Num 0]])\<rparr>)"
  by (simp add: generateTrackingPixel_def recordTrackingId_def appendRow_def Let_def
      pixelMarkup_def sheetRows_def split: option.splits)

text \<open>
  C9. Every call of \<open>generateTrackingPixel\<close> appends exactly one row to the tracking sheet
  (created with its header when absent): the token minted for the call, the given recipient
  email, the given seller id, the send date \<open>now\<close>, an empty open date, Opened \<open>No\<close> and
  Views 0. It returns the invisible image markup whose URL is the configured endpoint followed
  by \<open>?id=<token>&action=open\<close> for the same token.
\<close>

theorem generateTrackingPixel_record:
  "generateTrackingPixel uuid now email sid w =
     (pixelMarkup uuid,
      w\<lparr>trackingSheet :=
          Some (sheetRows w @ [[Str uuid, email, sid, Date now, Str [], Str ''No'', Num 0]])\<rparr>)"
  by (simp add: generateTrackingPixel_def recordTrackingId_def appendRow_def Let_def
      pixelMarkup_def sheetRows_def split: option.splits)

theorem generateTrackingPixel_record_witness:
  "generateTrackingPixel ''uuid-1'' 5000 (Str ''a@x.com'') (Str ''S7'') demoWorld =
     (pixelMarkup ''uuid-1'',
      \<lparr>trackingSheet =
          Some (demoSheet @ [[Str ''uuid-1'', Str ''a@x.com'', Str ''S7'', Date 5000, Str [], Str ''No'', Num 0]]),
       outbox = []\<rparr>)"
  using generateTrackingPixel_record [of "''uuid-1''" 5000 "Str ''a@x.com''" "Str ''S7''" demoWorld]
  by (simp add: demoWorld_def sheetRows_def)

lemma send_loop:
  "sendNotificationEmail_loop h html d subj emails (w, n) =
     (w\<lparr>outbox := outbox w @ map (notification h html d subj) (filter isValidEmail emails)\<rparr>,
      n + length (filter isValidEmail emails))"
proof (induction emails arbitrary: w n)
  case Nil
  then show ?case by simp
next
  case (Cons email emails)
  show ?case
    by (simp add: Cons.IH sendEmail_def notification_def)
qed

text \<open>
  C3, as the program does it. For a seller row whose email field is a string,
  \<open>sendNotificationEmail\<close> generates one pixel, for one token, before it splits the field:
  it appends exactly one record, whose Email cell is the whole field, so the store grows by one
  row whatever the number of addresses. It then sends one message to each valid address of the
  list, every message with the same body ending in that one pixel, and returns whether there
  was a valid address.
\<close>

theorem sendNotificationEmail_one_record:
  assumes "sellerEmail d = Str s"
  shows "sendNotificationEmail h uuid now htmlTemplate d subj w =
     (filter isValidEmail (map trim (splitComma s)) \<noteq> [],
      \<lparr>trackingSheet =
          Some (sheetRows w @ [[Str uuid, Str s, sellerId d, Date now, Str [], Str ''No'', Num 0]]),
       outbox = outbox w @
          map (notification h (htmlTemplate d @ pixelMarkup uuid) d subj)
            (filter isValidEmail (map trim (splitComma s)))\<rparr>)"
  using assms
  by (simp add: sendNotificationEmail_def generateTrackingPixel_eq send_loop Let_def)

lemma two_addresses:
  "trim ''a@x.com'' = ''a@x.com''" "trim '' b@x.com'' = ''b@x.com''"
  "isValidEmail ''a@x.com''" "isValidEmail ''b@x.com''"
  by (simp_all add: trim_def isValidEmail_def plainChar_def isSpace_def)

text \<open>
  C3 as the specification states it fails for \<open>"a@x.com, b@x.com"\<close>: two messages are sent
  and the store grows by one row, not two.
\<close>

theorem two_recipients_one_record:
  "map_option length (trackingSheet (snd (sendNotificationEmail demoHost ''uuid-1'' 5000 demoTemplate
      twoRecipients ''Result'' demoWorld))) = Some (length demoSheet + 1) \<and>
   map_option length (trackingSheet (snd (sendNotificationEmail demoHost ''uuid-1'' 5000 demoTemplate
      twoRecipients ''Result'' demoWorld))) \<noteq> Some (length demoSheet + 2) \<and>
   map recipient (outbox (snd (sendNotificationEmail demoHost ''uuid-1'' 5000 demoTemplate
      twoRecipients ''Result'' demoWorld))) = [''a@x.com'', ''b@x.com'']"
proof -
  have e: "sellerEmail twoRecipients = Str ''a@x.com, b@x.com''" by (simp add: twoRecipients_def)
  have r: "sheetRows demoWorld = demoSheet" "outbox demoWorld = []"
    by (simp_all add: sheetRows_def demoWorld_def)
  show ?thesis
    by (simp add: sendNotificationEmail_def generateTrackingPixel_eq send_loop Let_def e r
        two_addresses notification_def)
qed

theorem sendNotificationEmail_one_record_witness:
  "sendNotificationEmail demoHost ''uuid-1'' 5000 demoTemplate twoRecipients ''Result'' demoWorld =
     (True,
      \<lparr>trackingSheet =
          Some (demoSheet @ [[Str ''uuid-1'', Str ''a@x.com, b@x.com'', Str ''S7'', Date 5000, Str [],
                  Str ''No'', Num 0]]),
       outbox =
          [notification demoHost (demoTemplate twoRecipients @ pixelMarkup ''uuid-1'') twoRecipients
             ''Result'' ''a@x.com'',
           notification demoHost (demoTemplate twoRecipients @ pixelMarkup ''uuid-1'') twoRecipients
             ''Result'' ''b@x.com'']\<rparr>)"
proof -
  have e: "sellerEmail twoRecipients = Str ''a@x.com, b@x.com''" by (simp add: twoRecipients_def)
  have i: "sellerId twoRecipients = Str ''S7''" by (simp add: twoRecipients_def)
  have r: "sheetRows demoWorld = demoSheet" "outbox demoWorld = []"
    by (simp_all add: sheetRows_def demoWorld_def)
  from sendNotificationEmail_one_record [OF e, of demoHost "''uuid-1''" 5000 demoTemplate "''Result''" demoWorld]
  show ?thesis by (simp add: two_addresses i r)
qed

section \<open>Hits that run at the same time\<close>

lemma snapshot_first_match:
  assumes "1 \<le> k" "k < length sh0" "cellValue sh0 k 0 = Str tid"
    and first: "\<And>j. 1 \<le> j \<Longrightarrow> j < k \<Longrightarrow> cellValue sh0 j 0 \<noteq> Str tid"
  shows "recordEmailOpen_loop h now tid (getValues sh0) 1 sh =
     (if cellValue sh0 k 5 = Str ''No'' then
        setValue (k + 1) 6 (Str ''Yes'') (setValue (k + 1) 5 (Date now) sh)
      else setValue (k + 1) 7 (jsPlus h (jsOr (Some (cellValue sh0 k 6)) (Num 0)) (Num 1)) sh)"
proof -
  from assms(2) have ne: "sh0 \<noteq> []" by auto
  have "recordEmailOpen_loop h now tid (getValues sh0) 1 sh =
     (if cellAt (getValues sh0 ! k) 5 = Some (Str ''No'') then
        setValue (k + 1) 6 (Str ''Yes'') (setValue (k + 1) 5 (Date now) sh)
      else setValue (k + 1) 7 (jsPlus h (jsOr (cellAt (getValues sh0 ! k) 6) (Num 0)) (Num 1)) sh)"
  proof (rule loop_first_match)
    show "1 \<le> k" by fact
    show "k < length (getValues sh0)" using assms(2) ne by (simp add: length_getValues)
    show "cellAt (getValues sh0 ! k) 0 = Some (Str tid)"
      using assms(2,3) by (simp add: cellAt_getValues)
    fix j assume "1 \<le> j" "j < k"
    with first [of j] assms(2) show "cellAt (getValues sh0 ! j) 0 \<noteq> Some (Str tid)"
      by (simp add: cellAt_getValues)
  qed
  then show ?thesis
    using assms(2) by (simp add: opened_cell_getValues views_cell_getValues)
qed

lemma countedRow_mono: "countedRow k n sh \<Longrightarrow> n \<le> m \<Longrightarrow> countedRow k m sh"
  by (auto simp: countedRow_def)

lemma raceInv_start:
  "cellValue sh k 5 = Str ''No'' \<Longrightarrow> cellValue sh k 6 = Num 0 \<Longrightarrow> raceInv sh k (raceStart sh)"
  by (simp add: raceInv_def raceStart_def sameTokens_def freshRow_def)

lemma raceInvI:
  assumes "sameTokens sh (sheetNow s)"
    and "if completed s = 0 then freshRow k (sheetNow s) else countedRow k (completed s) (sheetNow s)"
    and "\<And>i data. snapshots s i = Some data \<Longrightarrow>
        \<exists>sh0. data = getValues sh0 \<and> sameTokens sh sh0 \<and>
           (cellValue sh0 k 5 = Str ''No'' \<or> countedRow k (completed s) sh0)"
  shows "raceInv sh k s"
  unfolding raceInv_def using assms by blast

lemma raceInv_snapshot:
  assumes "raceInv sh k s" "snapshots s i = Some data"
  shows "\<exists>sh0. data = getValues sh0 \<and> sameTokens sh sh0 \<and>
           (cellValue sh0 k 5 = Str ''No'' \<or> countedRow k (completed s) sh0)"
  using assms unfolding raceInv_def by blast

lemma raceInv_now:
  assumes "raceInv sh k s"
  shows "sameTokens sh (sheetNow s)"
    and "if completed s = 0 then freshRow k (sheetNow s) else countedRow k (completed s) (sheetNow s)"
  using assms unfolding raceInv_def by blast+

lemma raceInv_read:
  assumes inv: "raceInv sh k s"
  shows "raceInv sh k (raceStep h clock tok (Reads i) s)"
proof (rule raceInvI)
  let ?s' = "raceStep h clock tok (Reads i) s"
  show "sameTokens sh (sheetNow ?s')" using raceInv_now(1) [OF inv] by simp
  show "if completed ?s' = 0 then freshRow k (sheetNow ?s')
        else countedRow k (completed ?s') (sheetNow ?s')"
    using raceInv_now(2) [OF inv] by simp
  fix j data assume snap: "snapshots ?s' j = Some data"
  show "\<exists>sh0. data = getValues sh0 \<and> sameTokens sh sh0 \<and>
           (cellValue sh0 k 5 = Str ''No'' \<or> countedRow k (completed ?s') sh0)"
  proof (cases "j = i")
    case True
    with snap have d: "data = getValues (sheetNow s)" by simp
    have "cellValue (sheetNow s) k 5 = Str ''No'' \<or> countedRow k (completed s) (sheetNow s)"
      using raceInv_now(2) [OF inv] by (cases "completed s = 0") (simp_all add: freshRow_def)
    with d raceInv_now(1) [OF inv] show ?thesis by (intro exI [of _ "sheetNow s"]) simp
  next
    case False
    with snap have "snapshots s j = Some data" by simp
    from raceInv_snapshot [OF inv this] show ?thesis by simp
  qed
qed

lemma raceInv_write:
  assumes k: "1 \<le> k" "k < length sh" "cellValue sh k 0 = Str tok"
    "\<forall>j. 1 \<le> j \<and> j < k \<longrightarrow> cellValue sh j 0 \<noteq> Str tok"
    and inv: "raceInv sh k s"
    and snap: "snapshots s i = Some data"
  shows "raceInv sh k (raceStep h clock tok (Writes i) s)"
proof -
  let ?n = "completed s"
  from raceInv_snapshot [OF inv snap] obtain sh0 where sh0: "data = getValues sh0"
    "sameTokens sh sh0" "cellValue sh0 k 5 = Str ''No'' \<or> countedRow k ?n sh0" by blast
  note now = raceInv_now [OF inv]
  have k0: "1 \<le> k" "k < length sh0" "cellValue sh0 k 0 = Str tok"
    "\<And>j. 1 \<le> j \<Longrightarrow> j < k \<Longrightarrow> cellValue sh0 j 0 \<noteq> Str tok"
    using k sh0(2) by (simp_all add: sameTokens_def)
  define sh' where "sh' = recordEmailOpen_loop h (clock i) tok data 1 (sheetNow s)"
  have eq: "sh' =
     (if cellValue sh0 k 5 = Str ''No'' then
        setValue (k + 1) 6 (Str ''Yes'') (setValue (k + 1) 5 (Date (clock i)) (sheetNow s))
      else setValue (k + 1) 7 (jsPlus h (jsOr (Some (cellValue sh0 k 6)) (Num 0)) (Num 1)) (sheetNow s))"
    unfolding sh'_def sh0(1) by (rule snapshot_first_match [OF k0])
  have klen: "k < length (sheetNow s)" using now(1) k(2) by (simp add: sameTokens_def)
  have len': "length sh' = length (sheetNow s)"
    using klen by (simp add: eq length_setValue)
  have tok': "cellValue sh' j 0 = cellValue (sheetNow s) j 0" for j
    by (simp add: eq cellValue_setValue)
  have same': "sameTokens sh sh'"
    using now(1) by (simp add: sameTokens_def len' tok')
  have counted': "countedRow k (?n + 1) sh'"
  proof (cases "cellValue sh0 k 5 = Str ''No''")
    case True
    then have cells: "cellValue sh' k 5 = Str ''Yes''" "cellValue sh' k 6 = cellValue (sheetNow s) k 6"
      by (simp_all add: eq cellValue_setValue)
    show ?thesis
    proof (cases "?n = 0")
      case True
      with now(2) have "cellValue (sheetNow s) k 6 = Num 0" by (simp add: freshRow_def)
      with cells True show ?thesis by (simp add: countedRow_def)
    next
      case False
      with now(2) obtain v where "cellValue (sheetNow s) k 6 = Num v" "0 \<le> v" "v \<le> int ?n - 1"
        by (auto simp: countedRow_def)
      with cells show ?thesis by (simp add: countedRow_def)
    qed
  next
    case False
    with sh0(3) have c0: "countedRow k ?n sh0" by simp
    then obtain v0 where v0: "cellValue sh0 k 6 = Num v0" "0 \<le> v0" "v0 \<le> int ?n - 1" "1 \<le> ?n"
      by (auto simp: countedRow_def)
    with now(2) have yes: "cellValue (sheetNow s) k 5 = Str ''Yes''" by (simp add: countedRow_def)
    have "cellValue sh' k 5 = Str ''Yes''" "cellValue sh' k 6 = Num (v0 + 1)"
      using False yes v0(1) by (simp_all add: eq cellValue_setValue jsPlus_views)
    with v0 show ?thesis by (simp add: countedRow_def)
  qed
  have step: "raceStep h clock tok (Writes i) s =
      s\<lparr>sheetNow := sh', snapshots := (snapshots s)(i := None), completed := ?n + 1\<rparr>"
    unfolding sh'_def using snap by simp
  show ?thesis
  proof (rule raceInvI)
    show "sameTokens sh (sheetNow (raceStep h clock tok (Writes i) s))"
      unfolding step using same' by simp
    show "if completed (raceStep h clock tok (Writes i) s) = 0
          then freshRow k (sheetNow (raceStep h clock tok (Writes i) s))
          else countedRow k (completed (raceStep h clock tok (Writes i) s))
                 (sheetNow (raceStep h clock tok (Writes i) s))"
      unfolding step using counted' by simp
    fix j d assume "snapshots (raceStep h clock tok (Writes i) s) j = Some d"
    then have "snapshots s j = Some d" unfolding step by (simp split: if_splits)
    from raceInv_snapshot [OF inv this] obtain sh1 where sh1: "d = getValues sh1"
      "sameTokens sh sh1" "cellValue sh1 k 5 = Str ''No'' \<or> countedRow k ?n sh1" by blast
    from sh1(3) have "cellValue sh1 k 5 = Str ''No'' \<or> countedRow k (?n + 1) sh1"
      using countedRow_mono [of k ?n sh1 "?n + 1"] by auto
    with sh1(1,2) show "\<exists>sh0. d = getValues sh0 \<and> sameTokens sh sh0 \<and>
           (cellValue sh0 k 5 = Str ''No'' \<or>
            countedRow k (completed (raceStep h clock tok (Writes i) s)) sh0)"
      unfolding step by auto
  qed
qed

lemma raceInv_step:
  assumes k: "1 \<le> k" "k < length sh" "cellValue sh k 0 = Str tok"
    "\<forall>j. 1 \<le> j \<and> j < k \<longrightarrow> cellValue sh j 0 \<noteq> Str tok"
    and inv: "raceInv sh k s"
  shows "raceInv sh k (raceStep h clock tok t s)"
proof (cases t)
  case (Reads i)
  with raceInv_read [OF inv] show ?thesis by simp
next
  case (Writes i)
  show ?thesis
  proof (cases "snapshots s i")
    case None
    with inv show ?thesis by (simp add: Writes)
  next
    case (Some data)
    from raceInv_write [OF k inv Some] show ?thesis by (simp only: Writes)
  qed
qed

lemma raceInv_run:
  assumes k: "1 \<le> k" "k < length sh" "cellValue sh k 0 = Str tok"
    "\<forall>j. 1 \<le> j \<and> j < k \<longrightarrow> cellValue sh j 0 \<noteq> Str tok"
  shows "raceInv sh k s \<Longrightarrow> raceInv sh k (raceRun h clock tok ts s)"
proof (induction ts arbitrary: s)
  case Nil
  then show ?case by simp
next
  case (Cons t ts)
  from raceInv_step [OF k Cons.prems] have "raceInv sh k (raceStep h clock tok t s)" .
  then show ?case by (simp add: Cons.IH)
qed

lemma raceRun_append:
  "raceRun h clock tok (ts @ us) s = raceRun h clock tok us (raceRun h clock tok ts s)"
  by (induction ts arbitrary: s) simp_all

lemma oneByOne_Suc: "oneByOne (Suc n) = oneByOne n @ [Reads n, Writes n]"
  by (simp add: oneByOne_def)

lemma read_then_write:
  "raceRun h clock tok [Reads i, Writes i] s =
     s\<lparr>sheetNow := recordEmailOpen_loop h (clock i) tok (getValues (sheetNow s)) 1 (sheetNow s),
       snapshots := (snapshots s)(i := None),
       completed := completed s + 1\<rparr>"
  by simp

lemma oneByOne_first:
  assumes "1 \<le> k" "k < length sh" "cellValue sh k 0 = Str tok"
    "\<forall>j. 1 \<le> j \<and> j < k \<longrightarrow> cellValue sh j 0 \<noteq> Str tok"
    "cellValue sh k 5 = Str ''No''" "cellValue sh k 6 = Num 0"
  shows "completed (raceRun h clock tok (oneByOne (Suc n)) (raceStart sh)) = Suc n \<and>
         sameTokens sh (sheetNow (raceRun h clock tok (oneByOne (Suc n)) (raceStart sh))) \<and>
         cellValue (sheetNow (raceRun h clock tok (oneByOne (Suc n)) (raceStart sh))) k 5 = Str ''Yes'' \<and>
         cellValue (sheetNow (raceRun h clock tok (oneByOne (Suc n)) (raceStart sh))) k 6 = Num (int n)"
proof (induction n)
  case 0
  have "recordEmailOpen_loop h (clock 0) tok (getValues sh) 1 sh =
     (if cellValue sh k 5 = Str ''No'' then
        setValue (k + 1) 6 (Str ''Yes'') (setValue (k + 1) 5 (Date (clock 0)) sh)
      else setValue (k + 1) 7 (jsPlus h (jsOr (Some (cellValue sh k 6)) (Num 0)) (Num 1)) sh)"
    using assms(1-4) by (intro snapshot_first_match) auto
  with assms(5) have "recordEmailOpen_loop h (clock 0) tok (getValues sh) 1 sh =
      setValue (k + 1) 6 (Str ''Yes'') (setValue (k + 1) 5 (Date (clock 0)) sh)" by simp
  then have "raceRun h clock tok (oneByOne (Suc 0)) (raceStart sh) =
     \<lparr>sheetNow = setValue (k + 1) 6 (Str ''Yes'') (setValue (k + 1) 5 (Date (clock 0)) sh),
      snapshots = Map.empty(0 := None), completed = 1\<rparr>"
    unfolding oneByOne_Suc by (simp add: oneByOne_def raceStart_def)
  then show ?case
    using assms(2,6) by (simp add: sameTokens_def length_setValue cellValue_setValue)
next
  case (Suc n)
  define s where "s = raceRun h clock tok (oneByOne (Suc n)) (raceStart sh)"
  from Suc have s: "completed s = Suc n" "sameTokens sh (sheetNow s)"
    "cellValue (sheetNow s) k 5 = Str ''Yes''" "cellValue (sheetNow s) k 6 = Num (int n)"
    unfolding s_def by simp_all
  have k': "1 \<le> k" "k < length (sheetNow s)" "cellValue (sheetNow s) k 0 = Str tok"
    "\<And>j. 1 \<le> j \<Longrightarrow> j < k \<Longrightarrow> cellValue (sheetNow s) j 0 \<noteq> Str tok"
    using assms(1-4) s(2) by (simp_all add: sameTokens_def)
  define sh' where "sh' = recordEmailOpen_loop h (clock (Suc n)) tok (getValues (sheetNow s)) 1 (sheetNow s)"
  have "sh' =
     (if cellValue (sheetNow s) k 5 = Str ''No'' then
        setValue (k + 1) 6 (Str ''Yes'') (setValue (k + 1) 5 (Date (clock (Suc n))) (sheetNow s))
      else setValue (k + 1) 7 (jsPlus h (jsOr (Some (cellValue (sheetNow s) k 6)) (Num 0)) (Num 1))
             (sheetNow s))"
    unfolding sh'_def by (rule snapshot_first_match [OF k'])
  with s(3,4) have "sh' = setValue (k + 1) 7 (Num (int n + 1)) (sheetNow s)"
    by (simp add: jsPlus_views)
  then have cells: "length sh' = length (sheetNow s)" "\<And>j. cellValue sh' j 0 = cellValue (sheetNow s) j 0"
    "cellValue sh' k 5 = Str ''Yes''" "cellValue sh' k 6 = Num (int n + 1)"
    using k'(2) s(3) by (simp_all add: length_setValue cellValue_setValue)
  have "raceRun h clock tok (oneByOne (Suc (Suc n))) (raceStart sh) =
      s\<lparr>sheetNow := sh', snapshots := (snapshots s)(Suc n := None), completed := completed s + 1\<rparr>"
    unfolding oneByOne_Suc [of "Suc n"] raceRun_append s_def [symmetric] sh'_def
    by (rule read_then_write)
  then show ?case
    using cells s(1,2) by (simp add: sameTokens_def)
qed

lemma both_read_first:
  assumes "1 \<le> k" "k < length sh" "cellValue sh k 0 = Str tok"
    "\<forall>j. 1 \<le> j \<and> j < k \<longrightarrow> cellValue sh j 0 \<noteq> Str tok"
    "cellValue sh k 5 = Str ''No''"
  shows "raceRun h clock tok [Reads 0, Reads 1, Writes 0, Writes 1] (raceStart sh) =
     \<lparr>sheetNow = setValue (k + 1) 6 (Str ''Yes'') (setValue (k + 1) 5 (Date (clock 1))
         (setValue (k + 1) 6 (Str ''Yes'') (setValue (k + 1) 5 (Date (clock 0)) sh))),
      snapshots = Map.empty(0 \<mapsto> getValues sh, 1 \<mapsto> getValues sh, 0 := None, 1 := None),
      completed = 2\<rparr>"
proof -
  have "recordEmailOpen_loop h now tok (getValues sh) 1 sh' =
     (if cellValue sh k 5 = Str ''No'' then
        setValue (k + 1) 6 (Str ''Yes'') (setValue (k + 1) 5 (Date now) sh')
      else setValue (k + 1) 7 (jsPlus h (jsOr (Some (cellValue sh k 6)) (Num 0)) (Num 1)) sh')"
    for now sh' using assms(1-4) by (intro snapshot_first_match) auto
  with assms(5) have w: "recordEmailOpen_loop h now tok (getValues sh) 1 sh' =
      setValue (k + 1) 6 (Str ''Yes'') (setValue (k + 1) 5 (Date now) sh')" for now sh'
    by simp
  show ?thesis by (simp add: raceStart_def w [simplified])
qed

text \<open>
  C8, as the program does it. Take a fresh record (the first data row holding its token,
  Opened \<open>No\<close>, Views \<open>0\<close>) and any interleaving of the reads and writes of hits for its
  token in which \<open>K \<ge> 1\<close> hits finish. The record ends with Opened \<open>Yes\<close> and Views
  between \<open>0\<close> and \<open>K - 1\<close>. When the hits run one after another, Views is exactly
  \<open>K - 1\<close>.
\<close>

theorem concurrent_hits_bounds:
  assumes "1 \<le> k" "k < length sh" "cellValue sh k 0 = Str tok"
    and "\<forall>j. 1 \<le> j \<and> j < k \<longrightarrow> cellValue sh j 0 \<noteq> Str tok"
    and "cellValue sh k 5 = Str ''No''" "cellValue sh k 6 = Num 0"
    and "1 \<le> K" "completed (raceRun h clock tok turns (raceStart sh)) = K"
  shows "(\<exists>v. cellValue (sheetNow (raceRun h clock tok turns (raceStart sh))) k 5 = Str ''Yes'' \<and>
            cellValue (sheetNow (raceRun h clock tok turns (raceStart sh))) k 6 = Num v \<and>
            0 \<le> v \<and> v \<le> int K - 1) \<and>
         completed (raceRun h clock tok (oneByOne K) (raceStart sh)) = K \<and>
         cellValue (sheetNow (raceRun h clock tok (oneByOne K) (raceStart sh))) k 5 = Str ''Yes'' \<and>
         cellValue (sheetNow (raceRun h clock tok (oneByOne K) (raceStart sh))) k 6 = Num (int K - 1)"
proof -
  have "raceInv sh k (raceRun h clock tok turns (raceStart sh))"
    using assms(1-4) raceInv_start [OF assms(5,6)] by (rule raceInv_run)
  from raceInv_now(2) [OF this] assms(7,8)
  have "countedRow k K (sheetNow (raceRun h clock tok turns (raceStart sh)))" by simp
  then have any: "\<exists>v. cellValue (sheetNow (raceRun h clock tok turns (raceStart sh))) k 5 = Str ''Yes'' \<and>
            cellValue (sheetNow (raceRun h clock tok turns (raceStart sh))) k 6 = Num v \<and>
            0 \<le> v \<and> v \<le> int K - 1"
    by (auto simp: countedRow_def)
  from assms(7) obtain n where K: "K = Suc n" by (cases K) auto
  from oneByOne_first [OF assms(1-6), of h clock n] any show ?thesis
    unfolding K by simp
qed

text \<open>
  C8 as the specification states it fails: when two hits for a fresh token both read before
  either writes, both take the first-open branch. The second overwrites the open date of the
  first, and Views stays \<open>0\<close> where \<open>K - 1 = 1\<close>: a view is lost.
\<close>

theorem both_hits_read_first:
  "completed (raceRun demoHost demoClock ''tok-1'' [Reads 0, Reads 1, Writes 0, Writes 1]
     (raceStart demoSheet)) = 2 \<and>
   cellValue (sheetNow (raceRun demoHost demoClock ''tok-1'' [Reads 0, Reads 1, Writes 0, Writes 1]
     (raceStart demoSheet))) 1 4 = Date 6000 \<and>
   cellValue (sheetNow (raceRun demoHost demoClock ''tok-1'' [Reads 0, Reads 1, Writes 0, Writes 1]
     (raceStart demoSheet))) 1 5 = Str ''Yes'' \<and>
   cellValue (sheetNow (raceRun demoHost demoClock ''tok-1'' [Reads 0, Reads 1, Writes 0, Writes 1]
     (raceStart demoSheet))) 1 6 = Num 0 \<and>
   cellValue (sheetNow (raceRun demoHost demoClock ''tok-1'' [Reads 0, Reads 1, Writes 0, Writes 1]
     (raceStart demoSheet))) 1 6 \<noteq> Num (2 - 1)"
proof -
  have "raceRun demoHost demoClock ''tok-1'' [Reads 0, Reads 1, Writes 0, Writes 1] (raceStart demoSheet) =
     \<lparr>sheetNow = setValue (1 + 1) 6 (Str ''Yes'') (setValue (1 + 1) 5 (Date (demoClock 1))
         (setValue (1 + 1) 6 (Str ''Yes'') (setValue (1 + 1) 5 (Date (demoClock 0)) demoSheet))),
      snapshots = Map.empty(0 \<mapsto> getValues demoSheet, 1 \<mapsto> getValues demoSheet, 0 := None, 1 := None),
      completed = 2\<rparr>"
    by (rule both_read_first) (simp_all add: demo_cells demo_rows)
  then show ?thesis
    by (simp add: cellValue_setValue demo_cells demoClock_def)
qed

theorem concurrent_hits_bounds_witness:
  "(\<exists>v. cellValue (sheetNow (raceRun demoHost demoClock ''tok-1'' [Reads 0, Reads 1, Writes 0, Writes 1]
           (raceStart demoSheet))) 1 5 = Str ''Yes'' \<and>
        cellValue (sheetNow (raceRun demoHost demoClock ''tok-1'' [Reads 0, Reads 1, Writes 0, Writes 1]
           (raceStart demoSheet))) 1 6 = Num v \<and> 0 \<le> v \<and> v \<le> 1) \<and>
   cellValue (sheetNow (raceRun demoHost demoClock ''tok-1'' (oneByOne 2) (raceStart demoSheet))) 1 5 =
     Str ''Yes'' \<and>
   cellValue (sheetNow (raceRun demoHost demoClock ''tok-1'' (oneByOne 2) (raceStart demoSheet))) 1 6 =
     Num 1"
proof -
  have c: "completed (raceRun demoHost demoClock ''tok-1'' [Reads 0, Reads 1, Writes 0, Writes 1]
     (raceStart demoSheet)) = 2"
    by (simp add: raceStart_def)
  have f: "\<forall>j. 1 \<le> j \<and> j < 1 \<longrightarrow> cellValue demoSheet j 0 \<noteq> Str ''tok-1''" by simp
  have l: "1 < length demoSheet" by (simp add: demoSheet_def)
  from concurrent_hits_bounds [of 1 demoSheet "''tok-1''" 2 demoHost demoClock
      "[Reads 0, Reads 1, Writes 0, Writes 1]", OF _ l demo_cells(1) f demo_cells(3,4) _ c]
  show ?thesis by simp
qed

end
